theory Spec2Isabelle
  imports Main "HOL-Library.Word" "HOL-Library.Signed_Division"
begin

unbundle bit_operations_syntax

section \<open>Shuttle VFD driver: data model\<close>

text \<open>
  The driver keeps one \<open>struct shuttle_vfd\<close> per attached display. Bytes are
  \<open>unsigned char\<close>, the three \<open>unsigned long\<close> fields are 64-bit words (the LP64
  Linux kernel); none of the expressions below depends on bits above bit 29.
  The two effects of the driver that leave the structure are recorded in two
  extra fields: \<open>sent\<close> lists the 8-byte buffers handed to \<open>usb_control_msg\<close>
  by \<open>vfd_send_packet\<close>, oldest first, and \<open>errlog\<close> lists the \<open>dev_err\<close> lines.
\<close>

type_synonym byte = "8 word"
type_synonym ulong = "64 word"

definition bytes_of :: "string \<Rightarrow> byte list" where
  "bytes_of s = map of_char s"

definition SHUTTLE_VFD_WIDTH :: nat where
  "SHUTTLE_VFD_WIDTH = 20"

definition SHUTTLE_VFD_PACKET_SIZE :: nat where
  "SHUTTLE_VFD_PACKET_SIZE = 8"

definition SHUTTLE_VFD_DATA_SIZE :: nat where
  "SHUTTLE_VFD_DATA_SIZE = SHUTTLE_VFD_PACKET_SIZE - 1"

definition DRIVER_MODE_TEXT :: ulong where
  "DRIVER_MODE_TEXT = 0"

definition DRIVER_MODE_CLOCK :: ulong where
  "DRIVER_MODE_CLOCK = 1"

definition DRIVER_STYLE_TEXT_ALIGN_LEFT :: ulong where
  "DRIVER_STYLE_TEXT_ALIGN_LEFT = 0"

definition DRIVER_STYLE_TEXT_ALIGN_RIGHT :: ulong where
  "DRIVER_STYLE_TEXT_ALIGN_RIGHT = 1"

definition DRIVER_STYLE_TEXT_ALIGN_CENTER :: ulong where
  "DRIVER_STYLE_TEXT_ALIGN_CENTER = 2"

datatype log_msg = UnknownIcon nat | CantGetRtcTime | InvalidRtcTime

record shuttle_vfd =
  icons_mask :: ulong
  mode :: ulong
  text_style :: ulong
  packet :: "byte list"
  screen :: "byte list"
  sent :: "byte list list"
  errlog :: "log_msg list"

text \<open>
  \<open>memset(dst + off, c, n)\<close> and \<open>memcpy(dst + off, src, n)\<close> on buffers held as
  lists. Every call of the driver stays inside its destination, and \<open>memcpy\<close>
  is only given sources of at least \<open>n\<close> bytes.
\<close>

definition memset_at :: "byte list \<Rightarrow> nat \<Rightarrow> byte \<Rightarrow> nat \<Rightarrow> byte list" where
  "memset_at dst off c n = take off dst @ replicate n c @ drop (off + n) dst"

definition memcpy_at :: "byte list \<Rightarrow> nat \<Rightarrow> byte list \<Rightarrow> nat \<Rightarrow> byte list" where
  "memcpy_at dst off src n = take off dst @ take n src @ drop (off + n) dst"

section \<open>Packet emission\<close>

text \<open>
  \<open>vfd_send_packet\<close>: the buffer goes to the control pipe; the return value of
  \<open>usb_control_msg\<close> is only logged at debug level and every caller drops it.
\<close>

definition vfd_send_packet :: "shuttle_vfd \<Rightarrow> shuttle_vfd" where
  "vfd_send_packet vfd = vfd\<lparr>sent := sent vfd @ [packet vfd]\<rparr>"

definition vfd_reset_cursor :: "shuttle_vfd \<Rightarrow> bool \<Rightarrow> shuttle_vfd" where
  "vfd_reset_cursor vfd eraseall =
     (let p0 = memset_at (packet vfd) 0 0 SHUTTLE_VFD_PACKET_SIZE;
          p1 = p0[0 := push_bit 4 1 + 1];
          p2 = (if eraseall then p1[1 := 1] else p1[1 := 2])
      in vfd_send_packet (vfd\<lparr>packet := p2\<rparr>))"

text \<open>
  The first loop of \<open>vfd_set_text\<close>, counting the chunks still to send; \<open>p\<close> is the
  offset of the read pointer into \<open>screen\<close>.
\<close>

fun vfd_set_text_full :: "nat \<Rightarrow> nat \<Rightarrow> shuttle_vfd \<Rightarrow> nat \<times> shuttle_vfd" where
  "vfd_set_text_full 0 p vfd = (p, vfd)"
| "vfd_set_text_full (Suc k) p vfd =
     (let q0 = (packet vfd)[0 := push_bit 4 9 + of_nat SHUTTLE_VFD_DATA_SIZE];
          q1 = memcpy_at q0 1 (drop p (screen vfd)) SHUTTLE_VFD_DATA_SIZE
      in vfd_set_text_full k (p + SHUTTLE_VFD_DATA_SIZE)
           (vfd_send_packet (vfd\<lparr>packet := q1\<rparr>)))"

definition vfd_set_text :: "shuttle_vfd \<Rightarrow> nat \<Rightarrow> shuttle_vfd" where
  "vfd_set_text vfd len =
     (case vfd_set_text_full (len div SHUTTLE_VFD_DATA_SIZE) 0 vfd of
        (p, vfd1) \<Rightarrow>
          (let len' = len mod SHUTTLE_VFD_DATA_SIZE
           in if len' \<noteq> 0 then
                (let q0 = memset_at (packet vfd1) 0 0 SHUTTLE_VFD_PACKET_SIZE;
                     q1 = q0[0 := push_bit 4 9 + of_nat len'];
                     q2 = memcpy_at q1 1 (drop p (screen vfd1)) len'
                 in vfd_send_packet (vfd1\<lparr>packet := q2\<rparr>))
              else vfd1))"

definition vfd_set_icons :: "shuttle_vfd \<Rightarrow> shuttle_vfd" where
  "vfd_set_icons vfd =
     (let p0 = memset_at (packet vfd) 0 0 SHUTTLE_VFD_PACKET_SIZE;
          p1 = p0[0 := push_bit 4 7 + 4];
          p2 = p1[1 := ucast (drop_bit 15 (icons_mask vfd) AND 0x1F)];
          p3 = p2[2 := ucast (drop_bit 10 (icons_mask vfd) AND 0x1F)];
          p4 = p3[3 := ucast (drop_bit 5 (icons_mask vfd) AND 0x1F)];
          p5 = p4[4 := ucast (icons_mask vfd AND 0x1F)]
      in vfd_send_packet (vfd\<lparr>packet := p5\<rparr>))"

text \<open>The command and length nibbles of a packet's first byte.\<close>

definition pkt_cmd :: "byte list \<Rightarrow> byte" where
  "pkt_cmd pk = drop_bit 4 (pk ! 0)"

definition pkt_len :: "byte list \<Rightarrow> nat" where
  "pkt_len pk = unat (pk ! 0 AND 0xF)"

section \<open>Icon catalogue and token lookup\<close>

definition SHUTTLE_VFD_ICON_CLOCK :: ulong where
  "SHUTTLE_VFD_ICON_CLOCK = push_bit 4 1"

definition SHUTTLE_VFD_ICON_RADIO :: ulong where
  "SHUTTLE_VFD_ICON_RADIO = push_bit 3 1"

definition SHUTTLE_VFD_ICON_MUSIC :: ulong where
  "SHUTTLE_VFD_ICON_MUSIC = push_bit 2 1"

definition SHUTTLE_VFD_ICON_CD_DVD :: ulong where
  "SHUTTLE_VFD_ICON_CD_DVD = push_bit 1 1"

definition SHUTTLE_VFD_ICON_TELEVISION :: ulong where
  "SHUTTLE_VFD_ICON_TELEVISION = push_bit 0 1"

definition SHUTTLE_VFD_ICON_CAMERA :: ulong where
  "SHUTTLE_VFD_ICON_CAMERA = push_bit 9 1"

definition SHUTTLE_VFD_ICON_REWIND :: ulong where
  "SHUTTLE_VFD_ICON_REWIND = push_bit 8 1"

definition SHUTTLE_VFD_ICON_RECORD :: ulong where
  "SHUTTLE_VFD_ICON_RECORD = push_bit 7 1"

definition SHUTTLE_VFD_ICON_PLAY :: ulong where
  "SHUTTLE_VFD_ICON_PLAY = push_bit 6 1"

definition SHUTTLE_VFD_ICON_PAUSE :: ulong where
  "SHUTTLE_VFD_ICON_PAUSE = push_bit 5 1"

definition SHUTTLE_VFD_ICON_STOP :: ulong where
  "SHUTTLE_VFD_ICON_STOP = push_bit 14 1"

definition SHUTTLE_VFD_ICON_FASTFORWARD :: ulong where
  "SHUTTLE_VFD_ICON_FASTFORWARD = push_bit 13 1"

definition SHUTTLE_VFD_ICON_REVERSE :: ulong where
  "SHUTTLE_VFD_ICON_REVERSE = push_bit 12 1"

definition SHUTTLE_VFD_ICON_REPEAT :: ulong where
  "SHUTTLE_VFD_ICON_REPEAT = push_bit 11 1"

definition SHUTTLE_VFD_ICON_MUTE :: ulong where
  "SHUTTLE_VFD_ICON_MUTE = push_bit 10 1"

definition SHUTTLE_VFD_ICON_VOL_01 :: ulong where
  "SHUTTLE_VFD_ICON_VOL_01 = push_bit 15 1"

definition SHUTTLE_VFD_ICON_VOL_12 :: ulong where
  "SHUTTLE_VFD_ICON_VOL_12 = push_bit 15 12"

definition SHUTTLE_VFD_BASE_MASK :: ulong where
  "SHUTTLE_VFD_BASE_MASK = 0x7FFF"

definition SHUTTLE_VFD_VOL_MASK :: ulong where
  "SHUTTLE_VFD_VOL_MASK = push_bit 15 0xF"

definition SHUTTLE_VFD_ALL_ICONS :: ulong where
  "SHUTTLE_VFD_ALL_ICONS = 0x7FFF OR SHUTTLE_VFD_ICON_VOL_12"

definition DRIVER_ICON_CLEAR :: ulong where
  "DRIVER_ICON_CLEAR = push_bit 28 1"

definition DRIVER_ICON_SET :: ulong where
  "DRIVER_ICON_SET = push_bit 29 1"

text \<open>\<open>struct vfd_icons\<close>; a \<open>NULL\<close> alternative name is \<open>None\<close>.\<close>

record vfd_icons =
  name :: string
  altname :: "string option"
  val :: ulong

definition icons :: "vfd_icons list" where
  "icons =
    [\<lparr>name = ''clk'', altname = Some ''clock'', val = SHUTTLE_VFD_ICON_CLOCK\<rparr>,
     \<lparr>name = ''rad'', altname = Some ''radio'', val = SHUTTLE_VFD_ICON_RADIO\<rparr>,
     \<lparr>name = ''mus'', altname = Some ''music'', val = SHUTTLE_VFD_ICON_MUSIC\<rparr>,
     \<lparr>name = ''cd'', altname = Some ''dvd'', val = SHUTTLE_VFD_ICON_CD_DVD\<rparr>,
     \<lparr>name = ''tv'', altname = Some ''tele'', val = SHUTTLE_VFD_ICON_TELEVISION\<rparr>,
     \<lparr>name = ''cam'', altname = Some ''camera'', val = SHUTTLE_VFD_ICON_CAMERA\<rparr>,
     \<lparr>name = ''rew'', altname = Some ''rewind'', val = SHUTTLE_VFD_ICON_REWIND\<rparr>,
     \<lparr>name = ''rec'', altname = Some ''record'', val = SHUTTLE_VFD_ICON_RECORD\<rparr>,
     \<lparr>name = ''pl'', altname = Some ''play'', val = SHUTTLE_VFD_ICON_PLAY\<rparr>,
     \<lparr>name = ''pa'', altname = Some ''pause'', val = SHUTTLE_VFD_ICON_PAUSE\<rparr>,
     \<lparr>name = ''st'', altname = Some ''stop'', val = SHUTTLE_VFD_ICON_STOP\<rparr>,
     \<lparr>name = ''ff'', altname = None, val = SHUTTLE_VFD_ICON_FASTFORWARD\<rparr>,
     \<lparr>name = ''rev'', altname = Some ''reverse'', val = SHUTTLE_VFD_ICON_REVERSE\<rparr>,
     \<lparr>name = ''rep'', altname = Some ''repeat'', val = SHUTTLE_VFD_ICON_REPEAT\<rparr>,
     \<lparr>name = ''mute'', altname = Some ''vol0'', val = SHUTTLE_VFD_ICON_MUTE\<rparr>,
     \<lparr>name = ''all'', altname = Some ''world'', val = SHUTTLE_VFD_ALL_ICONS\<rparr>,
     \<lparr>name = ''clear'', altname = Some ''none'', val = DRIVER_ICON_CLEAR\<rparr>,
     \<lparr>name = ''='', altname = None, val = DRIVER_ICON_SET\<rparr>]"

text \<open>
  \<open>strlen(s) == count && strncmp(name, s, count) == 0\<close> for a table string \<open>s\<close>:
  the table strings hold no NUL, so the test succeeds exactly when the \<open>count\<close>
  bytes at \<open>name\<close> are the bytes of \<open>s\<close>. The argument \<open>nm\<close> of the functions
  below is that run of \<open>count\<close> bytes.
\<close>

definition name_eq :: "byte list \<Rightarrow> string \<Rightarrow> bool" where
  "name_eq nm s = (length s = length nm \<and> take (length nm) nm = bytes_of s)"

text \<open>
  The \<open>for\<close> loop of \<open>vfd_parse_icons\<close> over the rest of the table, giving the
  final \<open>*val\<close> (0 when the loop runs off the table). The digit tests compare
  a \<open>char\<close> with constants in \<open>0x30..0x39\<close>; bytes from \<open>0x80\<close> up fail them whether
  \<open>char\<close> is signed or not, so the unsigned order on bytes decides the same.
\<close>

fun vfd_parse_icons_from :: "vfd_icons list \<Rightarrow> byte list \<Rightarrow> ulong" where
  "vfd_parse_icons_from [] nm = 0"
| "vfd_parse_icons_from (e # es) nm =
     (if name_eq nm (name e) then val e
      else if (case altname e of None \<Rightarrow> False | Some a \<Rightarrow> name_eq nm a) then val e
      else if length nm = 4 \<and> take 3 nm = bytes_of ''vol''
              \<and> 0x30 < nm ! 3 \<and> nm ! 3 \<le> 0x39
        then push_bit 15 (ucast (nm ! 3 - 0x30))
      else if length nm = 5 \<and> take 4 nm = bytes_of ''vol1''
              \<and> 0x30 \<le> nm ! 4 \<and> nm ! 4 \<le> 0x32
        then push_bit 15 (ucast (nm ! 4 - 0x30 + 10))
      else vfd_parse_icons_from es nm)"

text \<open>\<open>vfd_parse_icons\<close>: the return code and the value stored through \<open>val\<close>.\<close>

definition vfd_parse_icons :: "byte list \<Rightarrow> int \<times> ulong" where
  "vfd_parse_icons nm =
     (let v = vfd_parse_icons_from icons nm in (if v = 0 then - 1 else 0, v))"

section \<open>The icons attribute: write\<close>

definition is_sep :: "byte \<Rightarrow> bool" where
  "is_sep c = (c = of_char CHR '','' \<or> c = of_char CHR '' '' \<or> c = 0x0A)"

text \<open>
  One token handed to \<open>vfd_parse_icons(p, l, &tmp)\<close>: the value found is OR-ed
  into \<open>mask\<close>, a failed lookup is a \<open>dev_err\<close> line printing \<open>l\<close>. \<open>buf\<close> holds the
  \<open>count\<close> bytes written and \<open>p\<close> is the offset of the pointer \<open>p\<close> from \<open>buf\<close>;
  the pair is \<open>mask\<close> and the lines logged so far.
\<close>

definition icon_token ::
  "byte list \<Rightarrow> nat \<Rightarrow> nat \<Rightarrow> ulong \<times> log_msg list \<Rightarrow> ulong \<times> log_msg list" where
  "icon_token buf p l acc =
     (case acc of
        (msk, errs) \<Rightarrow>
          (case vfd_parse_icons (take l (drop p buf)) of
             (ret, tmp) \<Rightarrow>
               (if ret = 0 then (msk OR tmp, errs) else (msk, errs @ [UnknownIcon l]))))"

text \<open>The \<open>while\<close> loop of \<open>set_vfd_icons_handler\<close>.\<close>

function icons_loop ::
  "byte list \<Rightarrow> nat \<Rightarrow> nat \<Rightarrow> nat \<Rightarrow> ulong \<times> log_msg list
     \<Rightarrow> nat \<times> nat \<times> ulong \<times> log_msg list" where
  "icons_loop buf i p l acc =
     (if i < length buf \<and> buf ! i \<noteq> 0 then
        (if is_sep (buf ! (p + l)) then
           (if 0 < l then icons_loop buf (i + 1) (p + l + 1) 0 (icon_token buf p l acc)
            else icons_loop buf (i + 1) (p + 1) l acc)
         else icons_loop buf (i + 1) p (l + 1) acc)
      else (p, l, acc))"
  by pat_completeness auto
termination
  by (relation "measure (\<lambda>(buf, i, p, l, acc). length buf - i)") auto

declare icons_loop.simps [simp del]

text \<open>The loop and the trailing token after it: the accumulated \<open>mask\<close> and the log.\<close>

definition icons_scan :: "byte list \<Rightarrow> ulong \<times> log_msg list" where
  "icons_scan buf =
     (case icons_loop buf 0 0 0 (0, []) of
        (p, l, acc) \<Rightarrow> (if 0 < l then icon_token buf p l acc else acc))"

text \<open>The merge of the accumulated mask into \<open>icons_mask\<close>.\<close>

definition icons_merge :: "ulong \<Rightarrow> ulong \<Rightarrow> ulong" where
  "icons_merge cur msk =
     (if msk AND DRIVER_ICON_CLEAR \<noteq> 0 then 0
      else if msk AND DRIVER_ICON_SET \<noteq> 0 then msk AND NOT DRIVER_ICON_SET
      else if SHUTTLE_VFD_ICON_VOL_01 \<le> msk then
        (let msk' = (if cur AND SHUTTLE_VFD_VOL_MASK = msk AND SHUTTLE_VFD_VOL_MASK
                     then msk AND SHUTTLE_VFD_BASE_MASK else msk)
         in (cur AND SHUTTLE_VFD_BASE_MASK) XOR msk')
      else cur XOR msk)"

text \<open>\<open>set_vfd_icons_handler\<close>; it always returns \<open>count\<close>.\<close>

definition set_vfd_icons_handler :: "shuttle_vfd \<Rightarrow> byte list \<Rightarrow> shuttle_vfd" where
  "set_vfd_icons_handler vfd buf =
     (case icons_scan buf of
        (msk, errs) \<Rightarrow>
          vfd_set_icons (vfd\<lparr>icons_mask := icons_merge (icons_mask vfd) msk,
                             errlog := errlog vfd @ errs\<rparr>))"

section \<open>The text attribute\<close>

text \<open>\<open>set_vfd_text_handler\<close>; it always returns \<open>count\<close>.\<close>

definition set_vfd_text_handler :: "shuttle_vfd \<Rightarrow> byte list \<Rightarrow> shuttle_vfd" where
  "set_vfd_text_handler vfd buf =
     (let count = length buf;
          s0 = (if count < SHUTTLE_VFD_WIDTH
                then memset_at (screen vfd) 0 0 SHUTTLE_VFD_WIDTH else screen vfd);
          l = min count SHUTTLE_VFD_WIDTH;
          s1 = (if text_style vfd = DRIVER_STYLE_TEXT_ALIGN_RIGHT then
                  memcpy_at (memset_at s0 0 0x20 (SHUTTLE_VFD_WIDTH - l))
                    (SHUTTLE_VFD_WIDTH - l) buf l
                else if text_style vfd = DRIVER_STYLE_TEXT_ALIGN_CENTER then
                  memcpy_at (memset_at s0 0 0x20 SHUTTLE_VFD_WIDTH)
                    ((SHUTTLE_VFD_WIDTH - l) div 2) buf l
                else memcpy_at s0 0 buf l);
          vfd1 = vfd\<lparr>screen := s1\<rparr>
      in if mode vfd1 = DRIVER_MODE_TEXT
         then vfd_set_text (vfd_reset_cursor vfd1 False) SHUTTLE_VFD_WIDTH
         else vfd1)"

text \<open>
  \<open>get_vfd_text_handler\<close>. The trim loop reads \<open>buf[sz-1]\<close> with no lower bound on
  \<open>sz\<close>; when \<open>sz\<close> has come down to 0 the read is at \<open>buf[-1]\<close>, before the start
  of the output buffer, which the model reports as an error instead of going on.
\<close>

datatype fault = ReadBeforeBuffer

fun text_trim :: "byte list \<Rightarrow> nat \<Rightarrow> fault + nat" where
  "text_trim b 0 = Inl ReadBeforeBuffer"
| "text_trim b (Suc k) =
     (if b ! k = 0 \<or> b ! k = 0x0A then text_trim b k else Inr (Suc k))"

definition get_vfd_text_handler :: "shuttle_vfd \<Rightarrow> fault + byte list" where
  "get_vfd_text_handler vfd =
     (let b = take SHUTTLE_VFD_WIDTH (screen vfd)
      in case text_trim b SHUTTLE_VFD_WIDTH of
           Inl e \<Rightarrow> Inl e
         | Inr sz \<Rightarrow> Inr (take sz b @ [0x0A]))"

section \<open>The icons attribute: read\<close>

text \<open>\<open>%ld\<close> of a value that is never negative.\<close>

fun dec_str :: "nat \<Rightarrow> string" where
  "dec_str n =
     (if n < 10 then [char_of (48 + n)]
      else dec_str (n div 10) @ [char_of (48 + n mod 10)])"

declare dec_str.simps [simp del]

text \<open>The \<open>for\<close> loop of \<open>get_vfd_icons_handler\<close> over the given table entries.\<close>

fun icons_names :: "vfd_icons list \<Rightarrow> ulong \<Rightarrow> string" where
  "icons_names [] m = []"
| "icons_names (e # es) m =
     (if val e AND m \<noteq> 0
      then (case altname e of None \<Rightarrow> name e | Some a \<Rightarrow> a) @ '' ''
      else []) @ icons_names es m"

definition get_vfd_icons_handler :: "shuttle_vfd \<Rightarrow> string" where
  "get_vfd_icons_handler vfd =
     (let out1 = icons_names (take (length icons - 3) icons) (icons_mask vfd);
          out2 = (if SHUTTLE_VFD_ICON_VOL_01 \<le> icons_mask vfd
                  then out1 @ ''vol'' @ dec_str (unat (drop_bit 15 (icons_mask vfd) AND 0xF))
                  else out1);
          out3 = (if length out2 = 0 then ''none'' else out2)
      in out3 @ [CHR 0x0A])"

text \<open>
  The volume sub-field and the base bits of a mask, as the driver reads them:
  \<open>(icons_mask >> 15) & 0xF\<close> and \<open>icons_mask & SHUTTLE_VFD_BASE_MASK\<close>.
\<close>

definition vol_field :: "ulong \<Rightarrow> ulong" where
  "vol_field m = drop_bit 15 m AND 0xF"

definition base_bits :: "ulong \<Rightarrow> ulong" where
  "base_bits m = m AND SHUTTLE_VFD_BASE_MASK"

section \<open>The tokens of an icons write, as the specification describes them\<close>

text \<open>
  The specification splits the input at the separators, drops the empty
  pieces, and looks every remaining token up; the values found are OR-ed and
  the tokens not found are reported. These definitions follow that wording
  (with the input ending at its first NUL); the loop of the handler is
  compared with them below.
\<close>

fun pieces :: "byte list \<Rightarrow> byte list list" where
  "pieces [] = [[]]"
| "pieces (c # cs) =
     (if is_sep c then [] # pieces cs
      else (c # hd (pieces cs)) # tl (pieces cs))"

definition tokens :: "byte list \<Rightarrow> byte list list" where
  "tokens buf = filter (\<lambda>t. t \<noteq> []) (pieces (takeWhile (\<lambda>c. c \<noteq> 0) buf))"

definition lookup_ok :: "byte list \<Rightarrow> bool" where
  "lookup_ok t = (fst (vfd_parse_icons t) = 0)"

definition resolved :: "byte list \<Rightarrow> ulong list" where
  "resolved buf = map (\<lambda>t. snd (vfd_parse_icons t)) (filter lookup_ok (tokens buf))"

definition unknown_tokens :: "byte list \<Rightarrow> byte list list" where
  "unknown_tokens buf = filter (\<lambda>t. \<not> lookup_ok t) (tokens buf)"

definition or_all :: "ulong list \<Rightarrow> ulong" where
  "or_all vs = foldl (OR) 0 vs"

text \<open>
  The tokens still to come when the piece \<open>cur\<close> has been read and \<open>rest\<close> is
  ahead, and the mask and log that a list of tokens adds to a pair.
\<close>

definition pending_tokens :: "byte list \<Rightarrow> byte list \<Rightarrow> byte list list" where
  "pending_tokens cur rest =
     (let fs = pieces (takeWhile (\<lambda>c. c \<noteq> 0) rest)
      in filter (\<lambda>t. t \<noteq> []) ((cur @ hd fs) # tl fs))"

definition tally :: "byte list list \<Rightarrow> ulong \<times> log_msg list \<Rightarrow> ulong \<times> log_msg list" where
  "tally ts acc =
     (fst acc OR or_all (map (\<lambda>t. snd (vfd_parse_icons t)) (filter lookup_ok ts)),
      snd acc @ map (\<lambda>t. UnknownIcon (length t)) (filter (\<lambda>t. \<not> lookup_ok t) ts))"

section \<open>The mode and text_style attributes\<close>

datatype errno = EINVAL

text \<open>
  \<open>sscanf(buf, "%5s", cmd)\<close> with the kernel's \<open>vsscanf\<close> and \<open>isspace\<close>: nothing
  is converted from an empty string; otherwise leading white space is skipped
  and at most 5 bytes are copied up to the next white space or the end.
  The result is \<open>None\<close> when the call does not return 1.
\<close>

definition isspace :: "byte \<Rightarrow> bool" where
  "isspace c = ((0x09 \<le> c \<and> c \<le> 0x0D) \<or> c = 0x20 \<or> c = 0xA0)"

definition sscanf_5s :: "byte list \<Rightarrow> byte list option" where
  "sscanf_5s buf =
     (let str = takeWhile (\<lambda>c. c \<noteq> 0) buf
      in if str = [] then None
         else Some (take 5 (takeWhile (\<lambda>c. \<not> isspace c) (dropWhile isspace str))))"

section \<open>The clock\<close>

text \<open>
  C's \<open>int\<close> is a 32-bit word read in two's complement (\<open>sint\<close>). Addition,
  subtraction and multiplication wrap around, as they do in the kernel, which
  is built with \<open>-fno-strict-overflow\<close>; division and remainder round towards
  zero.
\<close>

type_synonym cint = "32 word"

definition c_div :: "cint \<Rightarrow> cint \<Rightarrow> cint" where
  "c_div a b = word_of_int (sint a sdiv sint b)"

definition c_mod :: "cint \<Rightarrow> cint \<Rightarrow> cint" where
  "c_mod a b = word_of_int (sint a smod sint b)"

text \<open>
  \<open>struct rtc_time\<close>, and what the real-time clock gives the driver:
  \<open>rtc_class_open\<close> returns \<open>NULL\<close> (\<open>None\<close>) or a device; for a device,
  \<open>read_err\<close> is the result of \<open>rtc_read_time\<close>, \<open>read_tm\<close> is \<open>now\<close> after that
  call, and \<open>valid_tm\<close> is the result of \<open>rtc_valid_tm\<close> on it.
\<close>

record rtc_time =
  tm_sec :: cint
  tm_min :: cint
  tm_hour :: cint
  tm_mday :: cint
  tm_mon :: cint
  tm_year :: cint
  tm_wday :: cint
  tm_yday :: cint
  tm_isdst :: cint

record rtc_device =
  read_err :: cint
  read_tm :: rtc_time
  valid_tm :: cint

definition zero_tm :: rtc_time where
  "zero_tm = \<lparr>tm_sec = 0, tm_min = 0, tm_hour = 0, tm_mday = 0, tm_mon = 0,
              tm_year = 0, tm_wday = 0, tm_yday = 0, tm_isdst = 0\<rparr>"

text \<open>
  The macro \<open>DEC_AS_HEX\<close> on \<open>int\<close>. The store of an \<open>int\<close> into an
  \<open>unsigned char\<close> of the packet keeps the low 8 bits (\<open>ucast\<close>).
\<close>

definition DEC_AS_HEX :: "cint \<Rightarrow> cint" where
  "DEC_AS_HEX v = c_div v 10 * 16 + c_mod v 10"

definition vfd_set_clock :: "rtc_device option \<Rightarrow> shuttle_vfd \<Rightarrow> shuttle_vfd" where
  "vfd_set_clock rtc vfd =
     (let (now, msgs) =
            (case rtc of
               None \<Rightarrow> (zero_tm, [CantGetRtcTime])
             | Some d \<Rightarrow>
                 (read_tm d,
                  if read_err d = 0 \<and> valid_tm d \<noteq> 0 then [InvalidRtcTime] else []));
          vfd1 = vfd\<lparr>errlog := errlog vfd @ msgs\<rparr>;
          p0 = (packet vfd1)[0 := push_bit 4 0xD + 7];
          p1 = p0[1 := ucast (DEC_AS_HEX (tm_sec now))];
          p2 = p1[2 := ucast (DEC_AS_HEX (tm_min now))];
          p3 = p2[3 := ucast (DEC_AS_HEX (tm_hour now))];
          p4 = p3[4 := ucast (tm_wday now)];
          p5 = p4[5 := ucast (DEC_AS_HEX (tm_mday now))];
          p6 = p5[6 := ucast (DEC_AS_HEX (tm_mon now + 1))];
          p7 = p6[7 := ucast (DEC_AS_HEX (tm_year now - 100))];
          vfd2 = vfd_send_packet (vfd1\<lparr>packet := p7\<rparr>);
          q0 = memset_at (packet vfd2) 0 0 SHUTTLE_VFD_PACKET_SIZE;
          q1 = q0[0 := push_bit 4 3 + 1];
          q2 = q1[1 := 3]
      in vfd_send_packet (vfd2\<lparr>packet := q2\<rparr>))"

text \<open>\<open>set_vfd_mode_handler\<close>: \<open>-EINVAL\<close>, or the new state when it returns \<open>count\<close>.\<close>

definition set_vfd_mode_handler ::
  "rtc_device option \<Rightarrow> shuttle_vfd \<Rightarrow> byte list \<Rightarrow> errno + shuttle_vfd" where
  "set_vfd_mode_handler rtc vfd buf =
     (case sscanf_5s buf of
        None \<Rightarrow> Inl EINVAL
      | Some cmd \<Rightarrow>
          if cmd = bytes_of ''clock'' \<or> cmd = bytes_of ''clk'' then
            Inr (vfd_set_clock rtc ((vfd_reset_cursor vfd True)\<lparr>mode := DRIVER_MODE_CLOCK\<rparr>))
          else if cmd = bytes_of ''text'' \<or> cmd = bytes_of ''txt'' then
            Inr (vfd_set_text ((vfd_reset_cursor vfd True)\<lparr>mode := DRIVER_MODE_TEXT\<rparr>)
                   SHUTTLE_VFD_WIDTH)
          else Inl EINVAL)"

text \<open>\<open>set_vfd_text_style_handler\<close>.\<close>

definition set_vfd_text_style_handler :: "shuttle_vfd \<Rightarrow> byte list \<Rightarrow> errno + shuttle_vfd" where
  "set_vfd_text_style_handler vfd buf =
     (case sscanf_5s buf of
        None \<Rightarrow> Inl EINVAL
      | Some cmd \<Rightarrow>
          if cmd = bytes_of ''left'' \<or> cmd = bytes_of ''l'' then
            Inr (vfd\<lparr>text_style := DRIVER_STYLE_TEXT_ALIGN_LEFT\<rparr>)
          else if cmd = bytes_of ''right'' \<or> cmd = bytes_of ''r'' then
            Inr (vfd\<lparr>text_style := DRIVER_STYLE_TEXT_ALIGN_RIGHT\<rparr>)
          else if cmd = bytes_of ''center'' \<or> cmd = bytes_of ''c'' then
            Inr (vfd\<lparr>text_style := DRIVER_STYLE_TEXT_ALIGN_CENTER\<rparr>)
          else Inl EINVAL)"

section \<open>Attaching the device\<close>

text \<open>
  The state left by a successful \<open>shuttle_vfd_probe\<close>: the structure comes zeroed
  from \<open>kzalloc\<close>, the display is erased, and the greeting is centred and sent
  when the module parameter \<open>initial_greeting_msg\<close> is set.
\<close>

definition SHUTTLE_VFD_GREETING_MSG :: string where
  "SHUTTLE_VFD_GREETING_MSG = ''Linux''"

definition shuttle_vfd_probe :: "bool \<Rightarrow> shuttle_vfd" where
  "shuttle_vfd_probe initial_greeting_msg =
     (let dev0 = \<lparr>icons_mask = 0, mode = DRIVER_MODE_TEXT,
                  text_style = DRIVER_STYLE_TEXT_ALIGN_CENTER,
                  packet = replicate SHUTTLE_VFD_PACKET_SIZE 0,
                  screen = replicate SHUTTLE_VFD_WIDTH 0,
                  sent = [], errlog = []\<rparr>;
          dev1 = vfd_reset_cursor dev0 True
      in if initial_greeting_msg then
           (let n = length SHUTTLE_VFD_GREETING_MSG;
                s0 = memset_at (screen dev1) 0 0x20 SHUTTLE_VFD_WIDTH;
                s1 = memcpy_at s0 ((SHUTTLE_VFD_WIDTH - n) div 2)
                       (bytes_of SHUTTLE_VFD_GREETING_MSG) n
            in vfd_set_text (dev1\<lparr>screen := s1\<rparr>) SHUTTLE_VFD_WIDTH)
         else dev1)"

section \<open>Text packets\<close>

lemma replicate_8: "replicate 8 x = [x, x, x, x, x, x, x, x]"
  by (simp add: eval_nat_numeral)

lemma vfd_set_text_20:
  assumes "length (screen vfd) = 20" and "length (packet vfd) = 8"
  shows "vfd_set_text vfd SHUTTLE_VFD_WIDTH =
     vfd\<lparr>packet := 0x96 # drop 14 (screen vfd) @ [0],
         sent := sent vfd @ [0x97 # take 7 (screen vfd),
                             0x97 # take 7 (drop 7 (screen vfd)),
                             0x96 # drop 14 (screen vfd) @ [0]]\<rparr>"
proof -
  obtain a as where pk: "packet vfd = a # as" and las: "length as = 7"
    using assms(2) by (cases "packet vfd") auto
  have two: "(2::nat) = Suc (Suc 0)" by simp
  have d: "(20::nat) div 7 = 2" "(20::nat) mod 7 = 6" by simp_all
  show ?thesis
    using assms las
    by (simp add: vfd_set_text_def SHUTTLE_VFD_WIDTH_def SHUTTLE_VFD_DATA_SIZE_def
        SHUTTLE_VFD_PACKET_SIZE_def d two Let_def memcpy_at_def memset_at_def
        vfd_send_packet_def pk min_def replicate_8)
qed

text \<open>
  C6: flushing the full 20-byte screen as text hands exactly three buffers to
  the transport, each a command-9 packet of 8 bytes; the first two declare
  length 7, the third declares length 6, and in each of them every payload
  byte after the declared length is zero.
\<close>

theorem C6_text_three_packets:
  assumes "length (screen vfd) = 20" and "length (packet vfd) = 8"
  shows "\<exists>p1 p2 p3.
      sent (vfd_set_text vfd SHUTTLE_VFD_WIDTH) = sent vfd @ [p1, p2, p3]
    \<and> list_all (\<lambda>pk. length pk = 8 \<and> pkt_cmd pk = 9) [p1, p2, p3]
    \<and> pkt_len p1 = 7 \<and> pkt_len p2 = 7 \<and> pkt_len p3 = 6
    \<and> list_all (\<lambda>pk. drop (1 + pkt_len pk) pk = replicate (7 - pkt_len pk) 0) [p1, p2, p3]
    \<and> take 7 (tl p1) @ take 7 (tl p2) @ take 6 (tl p3) = screen vfd"
proof -
  have "drop 14 (screen vfd) = drop 7 (drop 7 (screen vfd))"
    by simp
  then have s: "take 7 (screen vfd) @ take 7 (drop 7 (screen vfd)) @ drop 14 (screen vfd)
                  = screen vfd"
    by (simp only: append_take_drop_id)
  show ?thesis
    using assms s
    by (simp add: vfd_set_text_20 pkt_cmd_def pkt_len_def drop_bit_eq_div)
qed

lemma probe_quiet:
  "shuttle_vfd_probe False =
     \<lparr>icons_mask = 0, mode = 0, text_style = 2,
      packet = [0x11, 1, 0, 0, 0, 0, 0, 0],
      screen = replicate 20 0,
      sent = [[0x11, 1, 0, 0, 0, 0, 0, 0]], errlog = []\<rparr>"
  by (simp add: shuttle_vfd_probe_def vfd_reset_cursor_def vfd_send_packet_def
      memset_at_def SHUTTLE_VFD_PACKET_SIZE_def SHUTTLE_VFD_WIDTH_def replicate_8
      DRIVER_MODE_TEXT_def DRIVER_STYLE_TEXT_ALIGN_CENTER_def Let_def)

theorem C6_text_three_packets_witness:
  "length (screen (shuttle_vfd_probe False)) = 20
   \<and> length (packet (shuttle_vfd_probe False)) = 8
   \<and> (\<exists>p1 p2 p3.
      sent (vfd_set_text (shuttle_vfd_probe False) SHUTTLE_VFD_WIDTH)
        = sent (shuttle_vfd_probe False) @ [p1, p2, p3]
    \<and> list_all (\<lambda>pk. length pk = 8 \<and> pkt_cmd pk = 9) [p1, p2, p3]
    \<and> pkt_len p1 = 7 \<and> pkt_len p2 = 7 \<and> pkt_len p3 = 6
    \<and> list_all (\<lambda>pk. drop (1 + pkt_len pk) pk = replicate (7 - pkt_len pk) 0) [p1, p2, p3]
    \<and> take 7 (tl p1) @ take 7 (tl p2) @ take 6 (tl p3) = screen (shuttle_vfd_probe False))"
proof -
  have h1: "length (screen (shuttle_vfd_probe False)) = 20"
    by (simp add: probe_quiet)
  have h2: "length (packet (shuttle_vfd_probe False)) = 8"
    by (simp add: probe_quiet)
  from C6_text_three_packets [OF h1 h2] h1 h2 show ?thesis
    by blast
qed

section \<open>Writing and reading the text\<close>

lemma replicate_numeral: "replicate (numeral k) x = x # replicate (pred_numeral k) x"
  by (simp add: numeral_eq_Suc)

lemma vfd_set_text_full_frame:
  "vfd_set_text_full k p v = (p', v') \<Longrightarrow>
     screen v' = screen v \<and> icons_mask v' = icons_mask v \<and> mode v' = mode v
     \<and> text_style v' = text_style v \<and> errlog v' = errlog v"
  by (induction k arbitrary: p v) (auto simp: Let_def vfd_send_packet_def)

lemma vfd_set_text_frame:
  "screen (vfd_set_text v n) = screen v"
  "icons_mask (vfd_set_text v n) = icons_mask v"
  "mode (vfd_set_text v n) = mode v"
  "text_style (vfd_set_text v n) = text_style v"
  "errlog (vfd_set_text v n) = errlog v"
  by (auto simp: vfd_set_text_def Let_def vfd_send_packet_def
      split: prod.splits dest: vfd_set_text_full_frame)

lemma vfd_reset_cursor_frame:
  "screen (vfd_reset_cursor v b) = screen v"
  "icons_mask (vfd_reset_cursor v b) = icons_mask v"
  "mode (vfd_reset_cursor v b) = mode v"
  "text_style (vfd_reset_cursor v b) = text_style v"
  "errlog (vfd_reset_cursor v b) = errlog v"
  by (simp_all add: vfd_reset_cursor_def Let_def vfd_send_packet_def)

lemma screen_set_text:
  "screen (set_vfd_text_handler vfd buf) =
     (let count = length buf;
          s0 = (if count < 20 then replicate 20 0 @ drop 20 (screen vfd) else screen vfd);
          l = min count 20
      in if text_style vfd = DRIVER_STYLE_TEXT_ALIGN_RIGHT then
           memcpy_at (memset_at s0 0 0x20 (20 - l)) (20 - l) buf l
         else if text_style vfd = DRIVER_STYLE_TEXT_ALIGN_CENTER then
           memcpy_at (memset_at s0 0 0x20 20) ((20 - l) div 2) buf l
         else memcpy_at s0 0 buf l)"
  by (simp add: set_vfd_text_handler_def Let_def vfd_set_text_frame vfd_reset_cursor_frame
      SHUTTLE_VFD_WIDTH_def memset_at_def)

lemma left_write_screen:
  assumes "length buf < 20"
    and "text_style vfd = DRIVER_STYLE_TEXT_ALIGN_LEFT"
    and "length (screen vfd) = 20"
  shows "screen (set_vfd_text_handler vfd buf) = buf @ replicate (20 - length buf) 0"
  using assms
  by (simp add: screen_set_text Let_def memcpy_at_def DRIVER_STYLE_TEXT_ALIGN_LEFT_def
      DRIVER_STYLE_TEXT_ALIGN_RIGHT_def DRIVER_STYLE_TEXT_ALIGN_CENTER_def min_def)

text \<open>
  C3 (as amended): with the Left style, a write of fewer than 20 bytes leaves
  the written bytes at the start of the 20-byte screen and every byte after
  them NUL (0x00), not a space: the buffer is zero-filled before the copy and
  the Left branch pads nothing.
\<close>

theorem C3_left_zero_fill:
  assumes "length buf < 20"
    and "text_style vfd = DRIVER_STYLE_TEXT_ALIGN_LEFT"
    and "length (screen vfd) = 20"
  shows "screen (set_vfd_text_handler vfd buf) = buf @ replicate (20 - length buf) 0"
  using assms by (rule left_write_screen)

theorem C3_left_zero_fill_witness:
  "length (bytes_of ''abc'') < 20
   \<and> text_style ((shuttle_vfd_probe False)\<lparr>text_style := DRIVER_STYLE_TEXT_ALIGN_LEFT\<rparr>)
       = DRIVER_STYLE_TEXT_ALIGN_LEFT
   \<and> length (screen ((shuttle_vfd_probe False)\<lparr>text_style := DRIVER_STYLE_TEXT_ALIGN_LEFT\<rparr>)) = 20
   \<and> screen (set_vfd_text_handler
        ((shuttle_vfd_probe False)\<lparr>text_style := DRIVER_STYLE_TEXT_ALIGN_LEFT\<rparr>)
        (bytes_of ''abc''))
      = [0x61, 0x62, 0x63, 0, 0, 0, 0, 0, 0, 0, 0, 0, 0, 0, 0, 0, 0, 0, 0, 0]"
  using C3_left_zero_fill [of "bytes_of ''abc''"
      "(shuttle_vfd_probe False)\<lparr>text_style := DRIVER_STYLE_TEXT_ALIGN_LEFT\<rparr>"]
  by (simp add: probe_quiet bytes_of_def replicate_numeral)

text \<open>
  The claim as first stated, with spaces to the right of the text, fails for
  the one-byte write \<open>A\<close>: the byte after it is NUL.
\<close>

theorem C3_left_space_pad_counterexample:
  "length (bytes_of ''A'') < 20
   \<and> text_style ((shuttle_vfd_probe False)\<lparr>text_style := DRIVER_STYLE_TEXT_ALIGN_LEFT\<rparr>)
       = DRIVER_STYLE_TEXT_ALIGN_LEFT
   \<and> screen (set_vfd_text_handler
        ((shuttle_vfd_probe False)\<lparr>text_style := DRIVER_STYLE_TEXT_ALIGN_LEFT\<rparr>)
        (bytes_of ''A'')) ! 1 = 0
   \<and> screen (set_vfd_text_handler
        ((shuttle_vfd_probe False)\<lparr>text_style := DRIVER_STYLE_TEXT_ALIGN_LEFT\<rparr>)
        (bytes_of ''A'')) ! 1 \<noteq> 0x20"
  by (simp add: screen_set_text probe_quiet bytes_of_def memcpy_at_def Let_def
      DRIVER_STYLE_TEXT_ALIGN_LEFT_def DRIVER_STYLE_TEXT_ALIGN_RIGHT_def
      DRIVER_STYLE_TEXT_ALIGN_CENTER_def replicate_numeral)

text \<open>
  C7: with the Center style, a write of 0 to 20 bytes leaves a screen of
  exactly 20 bytes: \<open>(20 - len) div 2\<close> spaces, the written bytes, and spaces
  for the rest; the right pad is the left pad plus the remainder of
  \<open>20 - len\<close> by 2, so an odd amount of padding puts the extra byte on the right.
\<close>

lemma center_write:
  assumes "n \<le> 20" "length buf = n" "length s0 = 20"
  shows "memcpy_at (memset_at s0 0 0x20 20) ((20 - n) div 2) buf n
        = replicate ((20 - n) div 2) 0x20 @ buf @ replicate (20 - n - (20 - n) div 2) 0x20"
proof -
  have a: "20 - ((20 - n) div 2 + n) = 20 - n - (20 - n) div 2"
    by simp
  have b: "(20 - n) div 2 \<le> 20" by simp
  show ?thesis
    using assms(2,3) b
    by (simp add: memcpy_at_def memset_at_def a min_def)
qed

theorem C7_center:
  assumes "length buf \<le> 20"
    and "text_style vfd = DRIVER_STYLE_TEXT_ALIGN_CENTER"
    and "length (screen vfd) = 20"
  shows "screen (set_vfd_text_handler vfd buf) =
           replicate ((20 - length buf) div 2) 0x20 @ buf
           @ replicate (20 - length buf - (20 - length buf) div 2) 0x20
       \<and> length (screen (set_vfd_text_handler vfd buf)) = 20
       \<and> 20 - length buf - (20 - length buf) div 2
           = (20 - length buf) div 2 + (20 - length buf) mod 2"
proof -
  let ?n = "length buf"
  let ?s0 = "if ?n < 20 then replicate 20 0 @ drop 20 (screen vfd) else screen vfd"
  have l0: "length ?s0 = 20"
    using assms(3) by simp
  have m: "min ?n 20 = ?n"
    using assms(1) by simp
  have "screen (set_vfd_text_handler vfd buf)
          = memcpy_at (memset_at ?s0 0 0x20 20) ((20 - ?n) div 2) buf ?n"
    using assms(2)
    by (simp add: screen_set_text Let_def m DRIVER_STYLE_TEXT_ALIGN_RIGHT_def
        DRIVER_STYLE_TEXT_ALIGN_CENTER_def)
  then have scr: "screen (set_vfd_text_handler vfd buf) =
           replicate ((20 - ?n) div 2) 0x20 @ buf
           @ replicate (20 - ?n - (20 - ?n) div 2) 0x20"
    using center_write [OF assms(1) refl l0] by simp
  have len: "(20 - ?n) div 2 + (?n + (20 - ?n - (20 - ?n) div 2)) = 20"
    using assms(1) by linarith
  have half: "m - m div 2 = m div 2 + m mod 2" for m :: nat
    by presburger
  have odd: "20 - ?n - (20 - ?n) div 2 = (20 - ?n) div 2 + (20 - ?n) mod 2"
    by (rule half)
  have len': "length (screen (set_vfd_text_handler vfd buf)) = 20"
    unfolding scr using len by simp
  show ?thesis
    using scr len' odd by blast
qed

theorem C7_center_witness:
  "length (bytes_of ''abc'') \<le> 20
   \<and> text_style (shuttle_vfd_probe False) = DRIVER_STYLE_TEXT_ALIGN_CENTER
   \<and> length (screen (shuttle_vfd_probe False)) = 20
   \<and> screen (set_vfd_text_handler (shuttle_vfd_probe False) (bytes_of ''abc''))
      = [0x20, 0x20, 0x20, 0x20, 0x20, 0x20, 0x20, 0x20, 0x61, 0x62, 0x63,
         0x20, 0x20, 0x20, 0x20, 0x20, 0x20, 0x20, 0x20, 0x20]"
proof -
  have h1: "length (bytes_of ''abc'') \<le> 20"
    by (simp add: bytes_of_def)
  have h2: "text_style (shuttle_vfd_probe False) = DRIVER_STYLE_TEXT_ALIGN_CENTER"
    by (simp add: probe_quiet DRIVER_STYLE_TEXT_ALIGN_CENTER_def)
  have h3: "length (screen (shuttle_vfd_probe False)) = 20"
    by (simp add: probe_quiet)
  have n: "length (bytes_of ''abc'') = 3"
    by (simp add: bytes_of_def)
  have r: "replicate 8 (0x20 :: byte) = [0x20, 0x20, 0x20, 0x20, 0x20, 0x20, 0x20, 0x20]"
    "replicate 9 (0x20 :: byte) = [0x20, 0x20, 0x20, 0x20, 0x20, 0x20, 0x20, 0x20, 0x20]"
    by (simp_all add: replicate_numeral)
  have "screen (set_vfd_text_handler (shuttle_vfd_probe False) (bytes_of ''abc''))
      = replicate 8 0x20 @ bytes_of ''abc'' @ replicate 9 0x20"
    using C7_center [OF h1 h2 h3] unfolding n by simp
  then show ?thesis
    using h1 h2 h3 unfolding r by (simp add: bytes_of_def)
qed

lemma text_trim_fault:
  "(text_trim b k = Inl ReadBeforeBuffer) = (\<forall>j<k. b ! j = 0 \<or> b ! j = 0x0A)"
  by (induction k) (auto simp: less_Suc_eq)

lemma text_trim_ok:
  "text_trim b k = Inr sz \<Longrightarrow> 0 < sz \<and> sz \<le> k \<and> b ! (sz - 1) \<noteq> 0 \<and> b ! (sz - 1) \<noteq> 0x0A
     \<and> (\<forall>j. sz \<le> j \<and> j < k \<longrightarrow> b ! j = 0 \<or> b ! j = 0x0A)"
  apply (induction k) apply (auto simp: less_Suc_eq split: if_splits)
  done


lemma fault_only: "(e = ReadBeforeBuffer) = True"
  by (cases e) simp

lemma get_text_fault:
  assumes "length (screen vfd) = 20"
  shows "(get_vfd_text_handler vfd = Inl ReadBeforeBuffer)
           = (\<forall>b\<in>set (screen vfd). b = 0 \<or> b = 0x0A)"
proof -
  have "(get_vfd_text_handler vfd = Inl ReadBeforeBuffer)
          = (text_trim (screen vfd) 20 = Inl ReadBeforeBuffer)"
    using assms
    by (simp add: get_vfd_text_handler_def SHUTTLE_VFD_WIDTH_def Let_def fault_only
        split: sum.splits)
  also have "\<dots> = (\<forall>j<20. screen vfd ! j = 0 \<or> screen vfd ! j = 0x0A)"
    by (rule text_trim_fault)
  also have "\<dots> = (\<forall>b\<in>set (screen vfd). b = 0 \<or> b = 0x0A)"
    using assms by (metis in_set_conv_nth)
  finally show ?thesis .
qed

text \<open>
  C9: reading the text back goes before the start of the output buffer
  exactly when all 20 screen bytes are NUL or newline, and returns a line
  exactly when some screen byte is neither. Such a screen is reachable: with
  the Left style, writing the single byte newline zero-fills the rest, and the
  next read runs the size down to 0 and reads \<open>buf[-1]\<close>.
\<close>

theorem C9_trim_reads_before_buffer:
  assumes "length (screen vfd) = 20"
  shows "(get_vfd_text_handler vfd = Inl ReadBeforeBuffer)
           = (\<forall>b\<in>set (screen vfd). b = 0 \<or> b = 0x0A)
       \<and> (\<exists>out. get_vfd_text_handler vfd = Inr out)
           = (\<exists>b\<in>set (screen vfd). b \<noteq> 0 \<and> b \<noteq> 0x0A)
       \<and> (text_style vfd = DRIVER_STYLE_TEXT_ALIGN_LEFT \<longrightarrow>
            get_vfd_text_handler (set_vfd_text_handler vfd [0x0A]) = Inl ReadBeforeBuffer)"
proof -
  have f: "(get_vfd_text_handler vfd = Inl ReadBeforeBuffer)
           = (\<forall>b\<in>set (screen vfd). b = 0 \<or> b = 0x0A)"
    by (rule get_text_fault [OF assms])
  have g: "(\<exists>out. get_vfd_text_handler vfd = Inr out)
             = (get_vfd_text_handler vfd \<noteq> Inl ReadBeforeBuffer)"
    by (cases "get_vfd_text_handler vfd") (auto intro: fault.exhaust)
  have h: "get_vfd_text_handler (set_vfd_text_handler vfd [0x0A]) = Inl ReadBeforeBuffer"
    if "text_style vfd = DRIVER_STYLE_TEXT_ALIGN_LEFT"
  proof -
    have "screen (set_vfd_text_handler vfd [0x0A]) = [0x0A] @ replicate (20 - length [0x0A :: byte]) 0"
      using that assms by (intro left_write_screen) simp_all
    then show ?thesis
      by (subst get_text_fault) auto
  qed
  show ?thesis
    using f g h by auto
qed

theorem C9_trim_reads_before_buffer_witness:
  "length (screen ((shuttle_vfd_probe False)\<lparr>text_style := DRIVER_STYLE_TEXT_ALIGN_LEFT\<rparr>)) = 20
   \<and> text_style ((shuttle_vfd_probe False)\<lparr>text_style := DRIVER_STYLE_TEXT_ALIGN_LEFT\<rparr>)
       = DRIVER_STYLE_TEXT_ALIGN_LEFT
   \<and> get_vfd_text_handler
       ((shuttle_vfd_probe False)\<lparr>text_style := DRIVER_STYLE_TEXT_ALIGN_LEFT\<rparr>)
      = Inl ReadBeforeBuffer
   \<and> get_vfd_text_handler (set_vfd_text_handler
       ((shuttle_vfd_probe False)\<lparr>text_style := DRIVER_STYLE_TEXT_ALIGN_LEFT\<rparr>) [0x0A])
      = Inl ReadBeforeBuffer"
  using C9_trim_reads_before_buffer
    [of "(shuttle_vfd_probe False)\<lparr>text_style := DRIVER_STYLE_TEXT_ALIGN_LEFT\<rparr>"]
  by (simp add: probe_quiet)

section \<open>The icons loop against the specification's tokens\<close>

lemma pieces_ne: "pieces cs \<noteq> []"
  by (induction cs) auto

lemma foldl_or_init: "foldl (OR) a vs = a OR foldl (OR) 0 vs" for a :: ulong
proof (induction vs arbitrary: a)
  case Nil
  show ?case by simp
next
  case (Cons v vs)
  have "foldl (OR) (a OR v) vs = (a OR v) OR foldl (OR) 0 vs"
    by (rule Cons.IH)
  moreover have "foldl (OR) v vs = v OR foldl (OR) 0 vs"
    by (rule Cons.IH)
  ultimately show ?case
    by (simp add: or.assoc)
qed

lemma or_all_Cons: "or_all (v # vs) = v OR or_all vs"
  using foldl_or_init [of v vs] by (simp add: or_all_def)

lemma or_all_Nil: "or_all [] = 0"
  by (simp add: or_all_def)

lemma pending_Nil: "pending_tokens cur [] = (if cur = [] then [] else [cur])"
  by (simp add: pending_tokens_def)

lemma pending_Cons:
  "pending_tokens cur (c # cs) =
     (if c = 0 then (if cur = [] then [] else [cur])
      else if is_sep c then (if cur = [] then [] else [cur]) @ pending_tokens [] cs
      else pending_tokens (cur @ [c]) cs)"
proof -
  obtain f fs where "pieces (takeWhile (\<lambda>c. c \<noteq> 0) cs) = f # fs"
    using pieces_ne by (cases "pieces (takeWhile (\<lambda>c. c \<noteq> 0) cs)") auto
  then show ?thesis
    by (simp add: pending_tokens_def Let_def)
qed

lemma tokens_pending: "tokens buf = pending_tokens [] buf"
proof -
  obtain f fs where "pieces (takeWhile (\<lambda>c. c \<noteq> 0) buf) = f # fs"
    using pieces_ne by (cases "pieces (takeWhile (\<lambda>c. c \<noteq> 0) buf)") auto
  then show ?thesis
    by (simp add: tokens_def pending_tokens_def Let_def)
qed

lemma tally_Nil: "tally [] acc = acc"
  by (simp add: tally_def or_all_Nil)

lemma icon_token_tally:
  "p + l \<le> length buf \<Longrightarrow> icon_token buf p l acc = tally [take l (drop p buf)] acc"
  by (cases acc) (simp add: icon_token_def tally_def lookup_ok_def or_all_Cons or_all_Nil
      split: prod.splits)

lemma tally_Cons: "tally (t # ts) acc = tally ts (tally [t] acc)"
  by (cases acc) (simp add: tally_def or_all_Cons or_all_Nil or.assoc)

lemma icons_loop_pending:
  assumes "p + l = i" and "i \<le> length buf"
  shows "(case icons_loop buf i p l acc of
            (p', l', acc') \<Rightarrow> if 0 < l' then icon_token buf p' l' acc' else acc')
         = tally (pending_tokens (take l (drop p buf)) (drop i buf)) acc"
  using assms
proof (induction buf i p l acc rule: icons_loop.induct)
  case (1 buf i p l acc)
  define cur where "cur = take l (drop p buf)"
  have len: "length cur = l"
    using "1.prems" by (simp add: cur_def)
  have cur_nil: "(cur = []) = (l = 0)"
    using len by (metis length_0_conv)
  have tok: "icon_token buf p l acc' = tally [cur] acc'" for acc'
    using "1.prems" by (simp add: cur_def icon_token_tally)
  have goal: "?case = ((case icons_loop buf i p l acc of
            (p', l', acc') \<Rightarrow> if 0 < l' then icon_token buf p' l' acc' else acc')
         = tally (pending_tokens cur (drop i buf)) acc)"
    by (simp add: cur_def)
  have "(case icons_loop buf i p l acc of
            (p', l', acc') \<Rightarrow> if 0 < l' then icon_token buf p' l' acc' else acc')
         = tally (pending_tokens cur (drop i buf)) acc"
  proof (cases "i < length buf \<and> buf ! i \<noteq> 0")
    case False
    have pend: "pending_tokens cur (drop i buf) = (if l = 0 then [] else [cur])"
    proof (cases "i < length buf")
      case True
      with False have "drop i buf = 0 # drop (Suc i) buf"
        by (metis Cons_nth_drop_Suc)
      then show ?thesis
        by (simp add: pending_Cons cur_nil)
    next
      case False
      then show ?thesis
        by (simp add: pending_Nil cur_nil)
    qed
    have "icons_loop buf i p l acc = (p, l, acc)"
      using False by (subst icons_loop.simps) auto
    then show ?thesis
      by (simp add: pend tok tally_Nil)
  next
    case True
    then have d: "drop i buf = buf ! i # drop (Suc i) buf"
      by (simp add: Cons_nth_drop_Suc)
    have pl: "p + l = i"
      using "1.prems" by simp
    have nxt: "i + 1 \<le> length buf"
      using True by simp
    show ?thesis
    proof (cases "is_sep (buf ! i)")
      case sep: True
      show ?thesis
      proof (cases "0 < l")
        case lpos: True
        have step: "icons_loop buf i p l acc
                     = icons_loop buf (Suc i) (Suc (p + l)) 0 (icon_token buf p l acc)"
          using True sep lpos pl by (subst icons_loop.simps) simp
        have ih: "(case icons_loop buf (Suc i) (Suc (p + l)) 0 (icon_token buf p l acc) of
                     (p', l', acc') \<Rightarrow> if 0 < l' then icon_token buf p' l' acc' else acc')
                  = tally (pending_tokens [] (drop (Suc i) buf))
                      (icon_token buf p l acc)"
        proof -
          have sep': "is_sep (buf ! (p + l))"
            unfolding pl by (rule sep)
          have "p + l + 1 + 0 = i + 1"
            unfolding pl by simp
          from "1.IH"(1) [OF True sep' lpos this nxt] show ?thesis
            by simp
        qed
        have pend: "pending_tokens cur (drop i buf) = cur # pending_tokens [] (drop (Suc i) buf)"
          using sep True lpos by (simp add: d pending_Cons cur_nil)
        have "(case icons_loop buf i p l acc of
                 (p', l', acc') \<Rightarrow> if 0 < l' then icon_token buf p' l' acc' else acc')
              = tally (pending_tokens [] (drop (Suc i) buf)) (icon_token buf p l acc)"
          unfolding step by (rule ih)
        also have "\<dots> = tally (pending_tokens [] (drop (Suc i) buf)) (tally [cur] acc)"
          by (simp only: tok)
        also have "\<dots> = tally (cur # pending_tokens [] (drop (Suc i) buf)) acc"
          by (rule tally_Cons [symmetric])
        finally show ?thesis
          unfolding pend .
      next
        case lzero: False
        have step: "icons_loop buf i p l acc = icons_loop buf (Suc i) (Suc p) l acc"
          using True sep lzero pl by (subst icons_loop.simps) simp
        have ih: "(case icons_loop buf (Suc i) (Suc p) l acc of
                     (p', l', acc') \<Rightarrow> if 0 < l' then icon_token buf p' l' acc' else acc')
                  = tally (pending_tokens [] (drop (Suc i) buf)) acc"
        proof -
          have sep': "is_sep (buf ! (p + l))"
            unfolding pl by (rule sep)
          have l0: "l = 0"
            using lzero by simp
          have "p + 1 + l = i + 1"
            using pl by simp
          from "1.IH"(2) [OF True sep' lzero this nxt] show ?thesis
            unfolding l0 by simp
        qed
        have "pending_tokens cur (drop i buf) = pending_tokens [] (drop (Suc i) buf)"
          using sep True lzero by (simp add: d pending_Cons cur_nil)
        then show ?thesis
          unfolding step by (simp only: ih)
      qed
    next
      case nosep: False
      have step: "icons_loop buf i p l acc = icons_loop buf (Suc i) p (Suc l) acc"
        using True nosep pl by (subst icons_loop.simps) simp
      have ih: "(case icons_loop buf (Suc i) p (Suc l) acc of
                   (p', l', acc') \<Rightarrow> if 0 < l' then icon_token buf p' l' acc' else acc')
                = tally (pending_tokens (cur @ [buf ! i]) (drop (Suc i) buf)) acc"
      proof -
        have grow: "take (l + 1) (drop p buf) = cur @ [buf ! i]"
        proof -
          have "l < length (drop p buf)"
            using True pl by auto
          then have "take (Suc l) (drop p buf) = take l (drop p buf) @ [drop p buf ! l]"
            by (rule take_Suc_conv_app_nth)
          moreover have "drop p buf ! l = buf ! i"
            using True pl by auto
          ultimately show ?thesis
            by (simp add: cur_def)
        qed
        have nosep': "\<not> is_sep (buf ! (p + l))"
          unfolding pl by (rule nosep)
        have "p + (l + 1) = i + 1"
          using pl by simp
        from "1.IH"(3) [OF True nosep' this nxt] show ?thesis
          unfolding grow by simp
      qed
      have "pending_tokens cur (drop i buf) = pending_tokens (cur @ [buf ! i]) (drop (Suc i) buf)"
        using nosep True by (simp add: d pending_Cons)
      then show ?thesis
        unfolding step by (simp only: ih)
    qed
  qed
  then show ?case
    using goal by simp
qed

lemma icons_scan_tokens:
  "icons_scan buf =
     (or_all (resolved buf), map (\<lambda>t. UnknownIcon (length t)) (unknown_tokens buf))"
  using icons_loop_pending [of 0 0 0 buf "(0, [])"]
  by (simp add: icons_scan_def tokens_pending tally_def resolved_def unknown_tokens_def)

section \<open>Bits of the icon mask\<close>

lemma bit_or_all: "bit (or_all vs) n = (\<exists>v\<in>set vs. bit v n)"
  by (induction vs) (auto simp: or_all_Nil or_all_Cons bit_or_iff)

lemma clear_pow: "DRIVER_ICON_CLEAR = 2 ^ 28"
  by (simp add: DRIVER_ICON_CLEAR_def)

lemma set_pow: "DRIVER_ICON_SET = 2 ^ 29"
  by (simp add: DRIVER_ICON_SET_def)

lemma and_clear_bit: "(m AND DRIVER_ICON_CLEAR \<noteq> 0) = bit m 28"
  unfolding clear_pow by (simp only: and_exp_eq_0_iff_not_bit not_not)

lemma and_set_bit: "(m AND DRIVER_ICON_SET \<noteq> 0) = bit m 29"
  unfolding set_pow by (simp only: and_exp_eq_0_iff_not_bit not_not)

lemma base_mask: "SHUTTLE_VFD_BASE_MASK = mask 15"
  by (simp add: SHUTTLE_VFD_BASE_MASK_def mask_eq_exp_minus_1)

lemma nibble_mask: "(0xF :: ulong) = mask 4"
  by (simp add: mask_eq_exp_minus_1)

lemma vol_mask: "SHUTTLE_VFD_VOL_MASK = push_bit 15 (mask 4)"
  by (simp add: SHUTTLE_VFD_VOL_MASK_def mask_eq_exp_minus_1)

lemma bit_base_bits: "bit (base_bits m) n = (n < 15 \<and> bit m n)"
  by (auto simp: base_bits_def base_mask bit_simps)

lemma bit_vol_field: "bit (vol_field m) n = (n < 4 \<and> bit m (n + 15))"
  by (auto simp: vol_field_def nibble_mask bit_simps add.commute)

lemma bit_and_vol_mask:
  "bit (m AND SHUTTLE_VFD_VOL_MASK) n = (15 \<le> n \<and> n < 19 \<and> bit m n)"
  by (auto simp: vol_mask bit_simps dest: bit_imp_le_length)

lemma vol_field_drop: "vol_field m = drop_bit 15 (m AND SHUTTLE_VFD_VOL_MASK)"
proof (rule bit_word_eqI)
  fix n
  have "bit (drop_bit 15 (m AND SHUTTLE_VFD_VOL_MASK)) n = bit (m AND SHUTTLE_VFD_VOL_MASK) (15 + n)"
    by (simp only: bit_drop_bit_eq o_apply)
  also have "\<dots> = (n < 4 \<and> bit m (n + 15))"
    unfolding bit_and_vol_mask by (auto simp: add.commute)
  finally show "bit (vol_field m) n = bit (drop_bit 15 (m AND SHUTTLE_VFD_VOL_MASK)) n"
    by (simp only: bit_vol_field)
qed

lemma vol_mask_push: "m AND SHUTTLE_VFD_VOL_MASK = push_bit 15 (vol_field m)"
proof (rule bit_word_eqI)
  fix n
  assume n: "n < LENGTH(64)"
  have "bit (push_bit 15 (vol_field m)) n = (15 \<le> n \<and> bit (vol_field m) (n - 15))"
    using n by (simp add: bit_push_bit_iff)
  also have "\<dots> = (15 \<le> n \<and> n < 19 \<and> bit m n)"
    unfolding bit_vol_field by auto
  finally show "bit (m AND SHUTTLE_VFD_VOL_MASK) n = bit (push_bit 15 (vol_field m)) n"
    by (simp only: bit_and_vol_mask)
qed

lemma vol_mask_eq_iff:
  "(a AND SHUTTLE_VFD_VOL_MASK = b AND SHUTTLE_VFD_VOL_MASK) = (vol_field a = vol_field b)"
  by (metis vol_field_drop vol_mask_push)

lemma vol_01_le:
  assumes "vol_field m \<noteq> 0"
  shows "SHUTTLE_VFD_ICON_VOL_01 \<le> m"
proof (rule ccontr)
  assume "\<not> SHUTTLE_VFD_ICON_VOL_01 \<le> m"
  then have "m < 2 ^ 15"
    by (simp add: SHUTTLE_VFD_ICON_VOL_01_def)
  then have "m AND mask 15 = m"
    by (simp add: less_mask_eq)
  then have "\<not> bit m (n + 15)" for n
    by (metis bit_and_iff bit_mask_iff not_add_less2)
  then have "vol_field m = 0"
    by (intro bit_word_eqI) (simp add: bit_vol_field)
  with assms show False by simp
qed

section \<open>Merging the parsed mask\<close>

lemma vfd_set_icons_frame:
  "icons_mask (vfd_set_icons v) = icons_mask v"
  "errlog (vfd_set_icons v) = errlog v"
  "screen (vfd_set_icons v) = screen v"
  "mode (vfd_set_icons v) = mode v"
  "text_style (vfd_set_icons v) = text_style v"
  by (simp_all add: vfd_set_icons_def Let_def vfd_send_packet_def)

lemma icons_handler_mask:
  "icons_mask (set_vfd_icons_handler vfd buf)
     = icons_merge (icons_mask vfd) (or_all (resolved buf))"
  by (simp add: set_vfd_icons_handler_def icons_scan_tokens vfd_set_icons_frame)

lemma icons_handler_errlog:
  "errlog (set_vfd_icons_handler vfd buf)
     = errlog vfd @ map (\<lambda>t. UnknownIcon (length t)) (unknown_tokens buf)"
  by (simp add: set_vfd_icons_handler_def icons_scan_tokens vfd_set_icons_frame)

lemma resolved_mem:
  "(v \<in> set (resolved buf)) = (\<exists>t\<in>set (tokens buf). vfd_parse_icons t = (0, v))"
  by (auto simp: resolved_def lookup_ok_def prod_eq_iff)

lemma icons_merge_base:
  assumes "\<not> bit msk 28" and "\<not> bit msk 29" and "vol_field msk \<noteq> 0"
  shows "icons_merge cur msk =
           base_bits cur XOR (if vol_field cur = vol_field msk then base_bits msk else msk)"
  using assms vol_01_le [OF assms(3)]
  by (simp add: icons_merge_def and_clear_bit and_set_bit vol_mask_eq_iff base_bits_def Let_def)

lemma icons_merge_vol:
  assumes "\<not> bit msk 28" and "\<not> bit msk 29" and "vol_field msk \<noteq> 0"
  shows "vol_field (icons_merge cur msk)
           = (if vol_field cur = vol_field msk then 0 else vol_field msk)"
    and "base_bits (icons_merge cur msk) = base_bits cur XOR base_bits msk"
proof -
  show "vol_field (icons_merge cur msk)
           = (if vol_field cur = vol_field msk then 0 else vol_field msk)"
    unfolding icons_merge_base [OF assms]
    by (rule bit_word_eqI) (auto simp: bit_vol_field bit_xor_iff bit_base_bits)
  show "base_bits (icons_merge cur msk) = base_bits cur XOR base_bits msk"
    unfolding icons_merge_base [OF assms]
    by (rule bit_word_eqI) (auto simp: bit_xor_iff bit_base_bits)
qed

lemma parse_from_cases:
  assumes "P 0" and "\<forall>e\<in>set es. P (val e)" and "\<forall>c :: byte. P (push_bit 15 (ucast c))"
  shows "P (vfd_parse_icons_from es nm)"
  using assms by (induction es) (auto split: option.splits)

lemma bit_vol_value:
  "bit (push_bit 15 (ucast (c :: byte)) :: ulong) n \<Longrightarrow> 15 \<le> n \<and> n < 23"
  by (auto simp: bit_push_bit_iff bit_ucast_iff dest: bit_imp_le_length)

lemma icons_sentinel_free:
  "\<forall>e\<in>set icons. val e = DRIVER_ICON_CLEAR \<or> val e = DRIVER_ICON_SET
      \<or> (\<not> bit (val e) 28 \<and> \<not> bit (val e) 29)"
  by code_simp

lemma sentinel_bits:
  "(bit (snd (vfd_parse_icons t)) 28 = (snd (vfd_parse_icons t) = DRIVER_ICON_CLEAR))
   \<and> (bit (snd (vfd_parse_icons t)) 29 = (snd (vfd_parse_icons t) = DRIVER_ICON_SET))"
proof -
  let ?P = "\<lambda>v :: ulong. (bit v 28 = (v = DRIVER_ICON_CLEAR)) \<and> (bit v 29 = (v = DRIVER_ICON_SET))"
  have c: "bit DRIVER_ICON_CLEAR 28" "\<not> bit DRIVER_ICON_CLEAR 29"
    "bit DRIVER_ICON_SET 29" "\<not> bit DRIVER_ICON_SET 28"
    by (simp_all add: clear_pow set_pow bit_exp_iff)
  have plain: "?P v" if "\<not> bit v 28" and "\<not> bit v 29" for v
    using that c by auto
  have p0: "?P 0"
    by (rule plain) simp_all
  have p1: "\<forall>e\<in>set icons. ?P (val e)"
  proof
    fix e assume "e \<in> set icons"
    with icons_sentinel_free
    consider "val e = DRIVER_ICON_CLEAR" | "val e = DRIVER_ICON_SET"
      | "\<not> bit (val e) 28 \<and> \<not> bit (val e) 29"
      by blast
    then show "?P (val e)"
    proof cases
      case 1 then show ?thesis using c by auto
    next
      case 2 then show ?thesis using c by auto
    next
      case 3 then show ?thesis using plain by blast
    qed
  qed
  have p2: "\<forall>c :: byte. ?P (push_bit 15 (ucast c))"
  proof
    fix b :: byte
    have "\<not> bit (push_bit 15 (ucast b) :: ulong) 28" "\<not> bit (push_bit 15 (ucast b) :: ulong) 29"
      using bit_vol_value [of b 28] bit_vol_value [of b 29] by auto
    then show "?P (push_bit 15 (ucast b))"
      by (rule plain)
  qed
  have "?P (vfd_parse_icons_from icons t)"
    using p0 p1 p2 by (rule parse_from_cases)
  then show ?thesis
    by (simp add: vfd_parse_icons_def Let_def)
qed

lemma or_all_sentinels:
  "bit (or_all (resolved buf)) 28 = (DRIVER_ICON_CLEAR \<in> set (resolved buf))"
  "bit (or_all (resolved buf)) 29 = (DRIVER_ICON_SET \<in> set (resolved buf))"
proof -
  have r: "(bit v 28 = (v = DRIVER_ICON_CLEAR)) \<and> (bit v 29 = (v = DRIVER_ICON_SET))"
    if "v \<in> set (resolved buf)" for v
  proof -
    from that obtain t where "v = snd (vfd_parse_icons t)"
      by (auto simp: resolved_def)
    then show ?thesis
      using sentinel_bits [of t] by simp
  qed
  have "(\<exists>v\<in>set (resolved buf). bit v 28) = (\<exists>v\<in>set (resolved buf). v = DRIVER_ICON_CLEAR)"
    using r by (intro bex_cong refl) simp
  then show "bit (or_all (resolved buf)) 28 = (DRIVER_ICON_CLEAR \<in> set (resolved buf))"
    by (simp add: bit_or_all)
  have "(\<exists>v\<in>set (resolved buf). bit v 29) = (\<exists>v\<in>set (resolved buf). v = DRIVER_ICON_SET)"
    using r by (intro bex_cong refl) simp
  then show "bit (or_all (resolved buf)) 29 = (DRIVER_ICON_SET \<in> set (resolved buf))"
    by (simp add: bit_or_all)
qed

section \<open>Writing the icons\<close>

text \<open>
  C5: the tokens of the write are those of the specification (\<open>tokens\<close>), and
  a token resolves to a value when \<open>vfd_parse_icons\<close> returns 0 for it. If some
  token resolves to the Clear sentinel, the new \<open>icons_mask\<close> is 0 whatever the
  other tokens and the old mask are. If none does and some token resolves to
  the Set sentinel, the new \<open>icons_mask\<close> is the OR of all resolved values
  without the Set bit; the old mask does not occur in it.
\<close>

theorem C5_clear_and_set:
  "((\<exists>t\<in>set (tokens buf). vfd_parse_icons t = (0, DRIVER_ICON_CLEAR))
      \<longrightarrow> icons_mask (set_vfd_icons_handler vfd buf) = 0)
   \<and> (\<not> (\<exists>t\<in>set (tokens buf). vfd_parse_icons t = (0, DRIVER_ICON_CLEAR))
        \<and> (\<exists>t\<in>set (tokens buf). vfd_parse_icons t = (0, DRIVER_ICON_SET))
      \<longrightarrow> icons_mask (set_vfd_icons_handler vfd buf)
            = or_all (resolved buf) AND NOT DRIVER_ICON_SET)"
proof -
  let ?m = "or_all (resolved buf)"
  have clr: "(\<exists>t\<in>set (tokens buf). vfd_parse_icons t = (0, DRIVER_ICON_CLEAR)) = bit ?m 28"
    by (simp only: or_all_sentinels resolved_mem)
  have st: "(\<exists>t\<in>set (tokens buf). vfd_parse_icons t = (0, DRIVER_ICON_SET)) = bit ?m 29"
    by (simp only: or_all_sentinels resolved_mem)
  have a: "bit ?m 28 \<Longrightarrow> icons_merge cur ?m = 0" for cur
    by (simp add: icons_merge_def and_clear_bit)
  have b: "\<not> bit ?m 28 \<Longrightarrow> bit ?m 29 \<Longrightarrow> icons_merge cur ?m = ?m AND NOT DRIVER_ICON_SET" for cur
    by (simp add: icons_merge_def and_clear_bit and_set_bit)
  show ?thesis
    unfolding clr st icons_handler_mask using a b by blast
qed

theorem C5_clear_and_set_witness:
  "(\<exists>t\<in>set (tokens (bytes_of ''play,clear'')). vfd_parse_icons t = (0, DRIVER_ICON_CLEAR))
   \<and> icons_mask (set_vfd_icons_handler
         ((shuttle_vfd_probe False)\<lparr>icons_mask := SHUTTLE_VFD_ICON_STOP\<rparr>)
         (bytes_of ''play,clear'')) = 0
   \<and> \<not> (\<exists>t\<in>set (tokens (bytes_of ''=,play,stop'')). vfd_parse_icons t = (0, DRIVER_ICON_CLEAR))
   \<and> (\<exists>t\<in>set (tokens (bytes_of ''=,play,stop'')). vfd_parse_icons t = (0, DRIVER_ICON_SET))
   \<and> icons_mask (set_vfd_icons_handler
         ((shuttle_vfd_probe False)\<lparr>icons_mask := SHUTTLE_VFD_ICON_MUTE\<rparr>)
         (bytes_of ''=,play,stop''))
       = SHUTTLE_VFD_ICON_PLAY OR SHUTTLE_VFD_ICON_STOP"
proof -
  have h1: "\<exists>t\<in>set (tokens (bytes_of ''play,clear'')). vfd_parse_icons t = (0, DRIVER_ICON_CLEAR)"
    by code_simp
  have h2: "\<not> (\<exists>t\<in>set (tokens (bytes_of ''=,play,stop'')). vfd_parse_icons t = (0, DRIVER_ICON_CLEAR))"
    by code_simp
  have h3: "\<exists>t\<in>set (tokens (bytes_of ''=,play,stop'')). vfd_parse_icons t = (0, DRIVER_ICON_SET)"
    by code_simp
  have v: "or_all (resolved (bytes_of ''=,play,stop'')) AND NOT DRIVER_ICON_SET
             = SHUTTLE_VFD_ICON_PLAY OR SHUTTLE_VFD_ICON_STOP"
    by code_simp
  show ?thesis
    using C5_clear_and_set [of "bytes_of ''play,clear''"
        "(shuttle_vfd_probe False)\<lparr>icons_mask := SHUTTLE_VFD_ICON_STOP\<rparr>"]
      C5_clear_and_set [of "bytes_of ''=,play,stop''"
        "(shuttle_vfd_probe False)\<lparr>icons_mask := SHUTTLE_VFD_ICON_MUTE\<rparr>"]
      h1 h2 h3 v
    by metis
qed

lemma scan_vol5: "or_all (resolved (bytes_of ''vol5'')) = 0x28000"
  by code_simp

lemma scan_vol7: "or_all (resolved (bytes_of ''vol7'')) = 0x38000"
  by code_simp

lemma vol5_bits: "vol_field 0x28000 = 5" "\<not> bit (0x28000 :: ulong) 28"
  "\<not> bit (0x28000 :: ulong) 29" "base_bits 0x28000 = 0"
  by code_simp+

lemma vol7_bits: "vol_field 0x38000 = 7" "\<not> bit (0x38000 :: ulong) 28"
  "\<not> bit (0x38000 :: ulong) 29" "base_bits 0x38000 = 0"
  by code_simp+

lemma select_vol5:
  "vol_field (icons_mask (set_vfd_icons_handler vfd (bytes_of ''vol5'')))
     = (if vol_field (icons_mask vfd) = 5 then 0 else 5)"
  "base_bits (icons_mask (set_vfd_icons_handler vfd (bytes_of ''vol5'')))
     = base_bits (icons_mask vfd)"
  using icons_merge_vol [of "0x28000" "icons_mask vfd"]
  by (simp_all add: icons_handler_mask scan_vol5 vol5_bits)

lemma select_vol7:
  "vol_field (icons_mask (set_vfd_icons_handler vfd (bytes_of ''vol7'')))
     = (if vol_field (icons_mask vfd) = 7 then 0 else 7)"
  "base_bits (icons_mask (set_vfd_icons_handler vfd (bytes_of ''vol7'')))
     = base_bits (icons_mask vfd)"
  using icons_merge_vol [of "0x38000" "icons_mask vfd"]
  by (simp_all add: icons_handler_mask scan_vol7 vol7_bits)

text \<open>
  C4 (as amended): when no token of the write resolves to a sentinel and the
  OR of the resolved values has a non-zero volume sub-field, the new volume
  sub-field is 0 if that value equals the current volume sub-field and is the
  new value otherwise, and the new base bits are the current base bits XOR
  the resolved base bits. So writing \<open>vol5\<close> twice in a row to a display whose
  volume sub-field is not 5 ends with the volume icon off; and writing \<open>vol5\<close>
  then \<open>vol7\<close>, from any mask, ends with level 7 and the base bits as they were.
\<close>

theorem C4_volume_toggle:
  "(DRIVER_ICON_CLEAR \<notin> set (resolved buf) \<and> DRIVER_ICON_SET \<notin> set (resolved buf)
      \<and> vol_field (or_all (resolved buf)) \<noteq> 0
     \<longrightarrow> vol_field (icons_mask (set_vfd_icons_handler vfd buf))
           = (if vol_field (or_all (resolved buf)) = vol_field (icons_mask vfd) then 0
              else vol_field (or_all (resolved buf)))
         \<and> base_bits (icons_mask (set_vfd_icons_handler vfd buf))
           = base_bits (icons_mask vfd) XOR base_bits (or_all (resolved buf)))
   \<and> (vol_field (icons_mask vfd) \<noteq> 5
     \<longrightarrow> vol_field (icons_mask (set_vfd_icons_handler
             (set_vfd_icons_handler vfd (bytes_of ''vol5'')) (bytes_of ''vol5''))) = 0)
   \<and> vol_field (icons_mask (set_vfd_icons_handler
         (set_vfd_icons_handler vfd (bytes_of ''vol5'')) (bytes_of ''vol7''))) = 7
   \<and> base_bits (icons_mask (set_vfd_icons_handler
         (set_vfd_icons_handler vfd (bytes_of ''vol5'')) (bytes_of ''vol7'')))
       = base_bits (icons_mask vfd)"
proof -
  have gen: "vol_field (icons_mask (set_vfd_icons_handler vfd buf))
           = (if vol_field (or_all (resolved buf)) = vol_field (icons_mask vfd) then 0
              else vol_field (or_all (resolved buf)))
         \<and> base_bits (icons_mask (set_vfd_icons_handler vfd buf))
           = base_bits (icons_mask vfd) XOR base_bits (or_all (resolved buf))"
    if "DRIVER_ICON_CLEAR \<notin> set (resolved buf)" "DRIVER_ICON_SET \<notin> set (resolved buf)"
      "vol_field (or_all (resolved buf)) \<noteq> 0"
  proof -
    have n: "\<not> bit (or_all (resolved buf)) 28" "\<not> bit (or_all (resolved buf)) 29"
      using that by (simp_all only: or_all_sentinels not_False_eq_True)
    show ?thesis
      using icons_merge_vol [OF n that(3), of "icons_mask vfd"]
      by (auto simp: icons_handler_mask)
  qed
  have twice: "vol_field (icons_mask (set_vfd_icons_handler
             (set_vfd_icons_handler vfd (bytes_of ''vol5'')) (bytes_of ''vol5''))) = 0"
    if "vol_field (icons_mask vfd) \<noteq> 5"
    using that by (simp add: select_vol5)
  have then7: "vol_field (icons_mask (set_vfd_icons_handler
         (set_vfd_icons_handler vfd (bytes_of ''vol5'')) (bytes_of ''vol7''))) = 7"
    by (simp add: select_vol7 select_vol5)
  have base7: "base_bits (icons_mask (set_vfd_icons_handler
         (set_vfd_icons_handler vfd (bytes_of ''vol5'')) (bytes_of ''vol7'')))
       = base_bits (icons_mask vfd)"
    by (simp add: select_vol7 select_vol5)
  show ?thesis
    using gen twice then7 base7 by blast
qed

theorem C4_volume_toggle_witness:
  "DRIVER_ICON_CLEAR \<notin> set (resolved (bytes_of ''vol5,stop''))
   \<and> DRIVER_ICON_SET \<notin> set (resolved (bytes_of ''vol5,stop''))
   \<and> vol_field (or_all (resolved (bytes_of ''vol5,stop''))) \<noteq> 0
   \<and> vol_field (icons_mask ((shuttle_vfd_probe False)\<lparr>icons_mask := 0x18040\<rparr>)) \<noteq> 5
   \<and> vol_field (icons_mask (set_vfd_icons_handler
         ((shuttle_vfd_probe False)\<lparr>icons_mask := 0x18040\<rparr>) (bytes_of ''vol5,stop''))) = 5
   \<and> base_bits (icons_mask (set_vfd_icons_handler
         ((shuttle_vfd_probe False)\<lparr>icons_mask := 0x18040\<rparr>) (bytes_of ''vol5,stop'')))
       = SHUTTLE_VFD_ICON_PLAY OR SHUTTLE_VFD_ICON_STOP
   \<and> vol_field (icons_mask (set_vfd_icons_handler (set_vfd_icons_handler
         ((shuttle_vfd_probe False)\<lparr>icons_mask := 0x18040\<rparr>) (bytes_of ''vol5''))
         (bytes_of ''vol5''))) = 0"
proof -
  let ?V = "(shuttle_vfd_probe False)\<lparr>icons_mask := 0x18040\<rparr>"
  let ?B = "bytes_of ''vol5,stop''"
  have h1: "DRIVER_ICON_CLEAR \<notin> set (resolved ?B)"
    by code_simp
  have h2: "DRIVER_ICON_SET \<notin> set (resolved ?B)"
    by code_simp
  have h3: "vol_field (or_all (resolved ?B)) \<noteq> 0"
    by code_simp
  have h4: "vol_field (icons_mask ?V) \<noteq> 5"
    by code_simp
  have e1: "(if vol_field (or_all (resolved ?B)) = vol_field (icons_mask ?V) then 0
             else vol_field (or_all (resolved ?B))) = 5"
    by code_simp
  have e2: "base_bits (icons_mask ?V) XOR base_bits (or_all (resolved ?B))
              = SHUTTLE_VFD_ICON_PLAY OR SHUTTLE_VFD_ICON_STOP"
    by code_simp
  from C4_volume_toggle [of ?B ?V] h1 h2 h3 h4
  have "vol_field (icons_mask (set_vfd_icons_handler ?V ?B))
           = (if vol_field (or_all (resolved ?B)) = vol_field (icons_mask ?V) then 0
              else vol_field (or_all (resolved ?B)))"
    and "base_bits (icons_mask (set_vfd_icons_handler ?V ?B))
           = base_bits (icons_mask ?V) XOR base_bits (or_all (resolved ?B))"
    and "vol_field (icons_mask (set_vfd_icons_handler
             (set_vfd_icons_handler ?V (bytes_of ''vol5'')) (bytes_of ''vol5''))) = 0"
    by blast+
  then show ?thesis
    unfolding e1 e2 using h1 h2 h3 h4 by blast
qed

text \<open>
  Without the condition on the current volume the example fails: on a display
  already showing level 5 (a fresh display after one \<open>vol5\<close>), the first of two
  \<open>vol5\<close> writes switches the volume off and the second switches level 5 on
  again, so the volume icon is not cleared.
\<close>

theorem C4_vol5_twice_counterexample:
  "icons_mask (set_vfd_icons_handler (shuttle_vfd_probe False) (bytes_of ''vol5'')) = 0x28000
   \<and> vol_field (icons_mask
         (set_vfd_icons_handler (shuttle_vfd_probe False) (bytes_of ''vol5''))) = 5
   \<and> vol_field (icons_mask (set_vfd_icons_handler
         (set_vfd_icons_handler
           (set_vfd_icons_handler (shuttle_vfd_probe False) (bytes_of ''vol5''))
           (bytes_of ''vol5''))
         (bytes_of ''vol5''))) = 5
   \<and> vol_field (icons_mask (set_vfd_icons_handler
         (set_vfd_icons_handler
           (set_vfd_icons_handler (shuttle_vfd_probe False) (bytes_of ''vol5''))
           (bytes_of ''vol5''))
         (bytes_of ''vol5''))) \<noteq> 0"
  by code_simp

lemma scan_foo_play:
  "or_all (resolved (bytes_of ''foo,play'')) = SHUTTLE_VFD_ICON_PLAY"
  "unknown_tokens (bytes_of ''foo,play'') = [bytes_of ''foo'']"
  "tokens (bytes_of ''foo,play'') = [bytes_of ''foo'', bytes_of ''play'']"
  "length (bytes_of ''foo'') = 3"
  by code_simp+

lemma icons_merge_play: "icons_merge cur SHUTTLE_VFD_ICON_PLAY = cur XOR SHUTTLE_VFD_ICON_PLAY"
proof -
  have "SHUTTLE_VFD_ICON_PLAY AND DRIVER_ICON_CLEAR = 0"
    "SHUTTLE_VFD_ICON_PLAY AND DRIVER_ICON_SET = 0"
    "\<not> SHUTTLE_VFD_ICON_VOL_01 \<le> SHUTTLE_VFD_ICON_PLAY"
    by code_simp+
  then show ?thesis
    by (simp add: icons_merge_def)
qed

text \<open>
  C8: the loop of the handler goes through every token of the write. The mask
  it accumulates is the OR of the values of all tokens that resolve, in
  whatever position, and each token that fails the lookup adds one \<open>dev_err\<close>
  line and nothing else; that mask is then merged and the write carries on.
  For \<open>foo,play\<close> the tokens are \<open>foo\<close> and \<open>play\<close>, the mask is the play bit, there
  is exactly one line for an unknown token, the play bit of \<open>icons_mask\<close> is
  toggled, and on a freshly attached display it is set.
\<close>

theorem C8_unknown_token_skipped:
  "icons_scan buf
     = (or_all (map (\<lambda>t. snd (vfd_parse_icons t)) (filter lookup_ok (tokens buf))),
        map (\<lambda>t. UnknownIcon (length t)) (filter (\<lambda>t. \<not> lookup_ok t) (tokens buf)))
   \<and> icons_mask (set_vfd_icons_handler vfd buf)
       = icons_merge (icons_mask vfd)
           (or_all (map (\<lambda>t. snd (vfd_parse_icons t)) (filter lookup_ok (tokens buf))))
   \<and> errlog (set_vfd_icons_handler vfd buf)
       = errlog vfd @ map (\<lambda>t. UnknownIcon (length t)) (filter (\<lambda>t. \<not> lookup_ok t) (tokens buf))
   \<and> tokens (bytes_of ''foo,play'') = [bytes_of ''foo'', bytes_of ''play'']
   \<and> icons_scan (bytes_of ''foo,play'') = (SHUTTLE_VFD_ICON_PLAY, [UnknownIcon 3])
   \<and> icons_mask (set_vfd_icons_handler vfd (bytes_of ''foo,play''))
       = icons_mask vfd XOR SHUTTLE_VFD_ICON_PLAY
   \<and> errlog (set_vfd_icons_handler vfd (bytes_of ''foo,play'')) = errlog vfd @ [UnknownIcon 3]
   \<and> icons_mask (set_vfd_icons_handler (shuttle_vfd_probe False) (bytes_of ''foo,play''))
       = SHUTTLE_VFD_ICON_PLAY"
proof -
  have a: "icons_scan (bytes_of ''foo,play'') = (SHUTTLE_VFD_ICON_PLAY, [UnknownIcon 3])"
    by (simp add: icons_scan_tokens scan_foo_play)
  have b: "icons_mask (set_vfd_icons_handler v (bytes_of ''foo,play''))
       = icons_mask v XOR SHUTTLE_VFD_ICON_PLAY" for v
    by (simp add: icons_handler_mask scan_foo_play icons_merge_play)
  have c: "errlog (set_vfd_icons_handler vfd (bytes_of ''foo,play'')) = errlog vfd @ [UnknownIcon 3]"
    by (simp add: icons_handler_errlog scan_foo_play)
  have d: "icons_mask (set_vfd_icons_handler (shuttle_vfd_probe False) (bytes_of ''foo,play''))
       = SHUTTLE_VFD_ICON_PLAY"
    by (simp add: b probe_quiet)
  show ?thesis
    using icons_scan_tokens [of buf] icons_handler_mask [of vfd buf]
      icons_handler_errlog [of vfd buf] a b [of vfd] c d scan_foo_play(3)
    unfolding resolved_def unknown_tokens_def by blast
qed

text \<open>
  C2: the range \<open>0..12\<close> of the volume sub-field is not kept by the handler. On
  the freshly attached display (volume sub-field 0) the write \<open>vol5,vol10\<close> ORs
  the two levels into 15: the stored volume sub-field is 15, which is above 12,
  and reading the icons back prints \<open>vol15\<close>, a token the lookup does not accept.
\<close>

theorem C2_volume_out_of_range:
  "vol_field (icons_mask (shuttle_vfd_probe False)) = 0
   \<and> unat (vol_field (icons_mask (shuttle_vfd_probe False))) \<le> 12
   \<and> icons_mask (set_vfd_icons_handler (shuttle_vfd_probe False) (bytes_of ''vol5,vol10''))
       = 0x78000
   \<and> vol_field (icons_mask (set_vfd_icons_handler (shuttle_vfd_probe False)
         (bytes_of ''vol5,vol10''))) = 15
   \<and> \<not> unat (vol_field (icons_mask (set_vfd_icons_handler (shuttle_vfd_probe False)
         (bytes_of ''vol5,vol10'')))) \<le> 12
   \<and> get_vfd_icons_handler (set_vfd_icons_handler (shuttle_vfd_probe False)
         (bytes_of ''vol5,vol10'')) = ''vol15'' @ [CHR 0x0A]"
  by code_simp

section \<open>Clock and mode\<close>

lemma reset_cursor_sent:
  assumes "length (packet v) = 8"
  shows "sent (vfd_reset_cursor v True) = sent v @ [[0x11, 1, 0, 0, 0, 0, 0, 0]]"
    and "length (packet (vfd_reset_cursor v True)) = 8"
  using assms
  by (simp_all add: vfd_reset_cursor_def vfd_send_packet_def memset_at_def
      SHUTTLE_VFD_PACKET_SIZE_def replicate_8 Let_def)

lemma set_text_full_sent:
  "vfd_set_text_full k p v = (p', v') \<Longrightarrow> \<exists>ps. sent v' = sent v @ ps"
proof (induction k arbitrary: p v)
  case 0
  then show ?case by simp
next
  case (Suc k)
  from Suc.prems obtain w where
    w: "vfd_set_text_full k (p + SHUTTLE_VFD_DATA_SIZE) w = (p', v')"
    and sw: "\<exists>q. sent w = sent v @ [q]"
    by (auto simp: Let_def vfd_send_packet_def)
  from Suc.IH [OF w] sw show ?case
    by auto
qed

lemma set_text_sent: "\<exists>ps. sent (vfd_set_text v n) = sent v @ ps"
proof -
  obtain p' v' where f: "vfd_set_text_full (n div SHUTTLE_VFD_DATA_SIZE) 0 v = (p', v')"
    by (cases "vfd_set_text_full (n div SHUTTLE_VFD_DATA_SIZE) 0 v") auto
  from set_text_full_sent [OF f] obtain ps where "sent v' = sent v @ ps"
    by blast
  then show ?thesis
    by (simp add: vfd_set_text_def f Let_def vfd_send_packet_def)
qed

lemma set_clock_frame:
  "icons_mask (vfd_set_clock rtc v) = icons_mask v"
  "mode (vfd_set_clock rtc v) = mode v"
  "screen (vfd_set_clock rtc v) = screen v"
  by (simp_all add: vfd_set_clock_def Let_def vfd_send_packet_def split: prod.splits)

lemma list8:
  assumes "length (xs :: 'a list) = 8"
  obtains a b c d e f g h where "xs = [a, b, c, d, e, f, g, h]"
proof -
  from assms obtain a b c d e f g h r where "xs = a # b # c # d # e # f # g # h # r"
    by (auto simp: length_Suc_conv eval_nat_numeral)
  with assms that show ?thesis
    by simp
qed

lemma set_clock_sent:
  assumes "length (packet v) = 8"
  shows "sent (vfd_set_clock rtc v) =
     sent v @
       [[0xD7,
         ucast (DEC_AS_HEX (tm_sec (case rtc of None \<Rightarrow> zero_tm | Some d \<Rightarrow> read_tm d))),
         ucast (DEC_AS_HEX (tm_min (case rtc of None \<Rightarrow> zero_tm | Some d \<Rightarrow> read_tm d))),
         ucast (DEC_AS_HEX (tm_hour (case rtc of None \<Rightarrow> zero_tm | Some d \<Rightarrow> read_tm d))),
         ucast (tm_wday (case rtc of None \<Rightarrow> zero_tm | Some d \<Rightarrow> read_tm d)),
         ucast (DEC_AS_HEX (tm_mday (case rtc of None \<Rightarrow> zero_tm | Some d \<Rightarrow> read_tm d))),
         ucast (DEC_AS_HEX (tm_mon (case rtc of None \<Rightarrow> zero_tm | Some d \<Rightarrow> read_tm d) + 1)),
         ucast (DEC_AS_HEX (tm_year (case rtc of None \<Rightarrow> zero_tm | Some d \<Rightarrow> read_tm d) - 100))],
        [0x31, 3, 0, 0, 0, 0, 0, 0]]"
proof -
  from assms obtain a b c d e f g h where pk: "packet v = [a, b, c, d, e, f, g, h]"
    by (rule list8)
  show ?thesis
    by (cases rtc)
      (simp_all add: vfd_set_clock_def Let_def vfd_send_packet_def pk memset_at_def
        SHUTTLE_VFD_PACKET_SIZE_def replicate_8)
qed

lemma dec_as_hex_zero:
  "DEC_AS_HEX 0 = 0" "DEC_AS_HEX 1 = 1" "ucast (DEC_AS_HEX (- 100)) = (0x60 :: byte)"
  by code_simp+

text \<open>
  C1 (as amended): \<open>vfd_set_clock\<close> always completes with both packets sent.
  With no clock device the \<open>0xD\<close> packet carries the encoding of the zeroed
  \<open>struct rtc_time\<close>: seconds, minutes, hours, weekday and day of month are 0,
  the month byte is \<open>0x01\<close> (\<open>tm_mon + 1\<close>) and the year byte is \<open>0x60\<close>
  (\<open>DEC_AS_HEX(-100)\<close> cut to 8 bits). With a device the packet carries the
  encoding of what was read, in 32-bit \<open>int\<close> arithmetic, whether or not
  \<open>rtc_valid_tm\<close> accepts it; an invalid reading is only logged.
\<close>

theorem C1_clock_unavailable:
  assumes "length (packet vfd) = 8"
  shows "sent (vfd_set_clock None vfd)
           = sent vfd @ [[0xD7, 0, 0, 0, 0, 0, 0x01, 0x60], [0x31, 3, 0, 0, 0, 0, 0, 0]]
       \<and> errlog (vfd_set_clock None vfd) = errlog vfd @ [CantGetRtcTime]
       \<and> sent (vfd_set_clock (Some d) vfd)
           = sent vfd @
               [[0xD7,
                 ucast (DEC_AS_HEX (tm_sec (read_tm d))),
                 ucast (DEC_AS_HEX (tm_min (read_tm d))),
                 ucast (DEC_AS_HEX (tm_hour (read_tm d))),
                 ucast (tm_wday (read_tm d)),
                 ucast (DEC_AS_HEX (tm_mday (read_tm d))),
                 ucast (DEC_AS_HEX (tm_mon (read_tm d) + 1)),
                 ucast (DEC_AS_HEX (tm_year (read_tm d) - 100))],
                [0x31, 3, 0, 0, 0, 0, 0, 0]]
       \<and> errlog (vfd_set_clock (Some d) vfd)
           = errlog vfd @ (if read_err d = 0 \<and> valid_tm d \<noteq> 0 then [InvalidRtcTime] else [])"
proof -
  have a: "sent (vfd_set_clock None vfd)
           = sent vfd @ [[0xD7, 0, 0, 0, 0, 0, 0x01, 0x60], [0x31, 3, 0, 0, 0, 0, 0, 0]]"
    by (simp add: set_clock_sent [OF assms] zero_tm_def dec_as_hex_zero)
  have b: "errlog (vfd_set_clock rtc vfd)
           = errlog vfd @ (case rtc of None \<Rightarrow> [CantGetRtcTime]
               | Some d \<Rightarrow> if read_err d = 0 \<and> valid_tm d \<noteq> 0 then [InvalidRtcTime] else [])"
    for rtc
    by (cases rtc) (simp_all add: vfd_set_clock_def Let_def vfd_send_packet_def)
  show ?thesis
    using a b [of None] b [of "Some d"] set_clock_sent [OF assms, of "Some d"] by simp
qed

theorem C1_clock_unavailable_witness:
  "length (packet (shuttle_vfd_probe False)) = 8
   \<and> sent (vfd_set_clock None (shuttle_vfd_probe False))
       = [[0x11, 1, 0, 0, 0, 0, 0, 0],
          [0xD7, 0, 0, 0, 0, 0, 0x01, 0x60], [0x31, 3, 0, 0, 0, 0, 0, 0]]
   \<and> sent (vfd_set_clock
         (Some \<lparr>read_err = 0,
                read_tm = zero_tm\<lparr>tm_sec := 45, tm_min := 30, tm_hour := 9,
                                  tm_mon := 0x7FFFFFFF, tm_year := 126\<rparr>,
                valid_tm = - 22\<rparr>)
         (shuttle_vfd_probe False))
       = [[0x11, 1, 0, 0, 0, 0, 0, 0],
          [0xD7, 0x45, 0x30, 0x09, 0, 0, 0x38, 0x26], [0x31, 3, 0, 0, 0, 0, 0, 0]]"
proof -
  let ?d = "\<lparr>read_err = 0,
             read_tm = zero_tm\<lparr>tm_sec := 45, tm_min := 30, tm_hour := 9,
                               tm_mon := 0x7FFFFFFF, tm_year := 126\<rparr>,
             valid_tm = - 22\<rparr>"
  have h: "length (packet (shuttle_vfd_probe False)) = 8"
    by (simp add: probe_quiet)
  have e: "ucast (DEC_AS_HEX (tm_sec (read_tm ?d))) = (0x45 :: byte)"
    "ucast (DEC_AS_HEX (tm_min (read_tm ?d))) = (0x30 :: byte)"
    "ucast (DEC_AS_HEX (tm_hour (read_tm ?d))) = (0x09 :: byte)"
    "ucast (tm_wday (read_tm ?d)) = (0 :: byte)"
    "ucast (DEC_AS_HEX (tm_mday (read_tm ?d))) = (0 :: byte)"
    "ucast (DEC_AS_HEX (tm_mon (read_tm ?d) + 1)) = (0x38 :: byte)"
    "ucast (DEC_AS_HEX (tm_year (read_tm ?d) - 100)) = (0x26 :: byte)"
    by code_simp+
  have s: "sent (shuttle_vfd_probe False) = [[0x11, 1, 0, 0, 0, 0, 0, 0]]"
    by (simp add: probe_quiet)
  from C1_clock_unavailable [OF h, of ?d] show ?thesis
    unfolding e s using h by simp
qed

text \<open>
  The claim as first stated fails on both of its cases: with no clock device
  the month and year bytes are not zero, and an invalid reading (61 seconds)
  is sent as read.
\<close>

theorem C1_zero_payload_counterexample:
  "pkt_cmd (sent (vfd_set_clock None (shuttle_vfd_probe False)) ! 1) = 0xD
   \<and> take 7 (tl (sent (vfd_set_clock None (shuttle_vfd_probe False)) ! 1))
       = [0, 0, 0, 0, 0, 0x01, 0x60]
   \<and> take 7 (tl (sent (vfd_set_clock None (shuttle_vfd_probe False)) ! 1))
       \<noteq> [0, 0, 0, 0, 0, 0, 0]
   \<and> valid_tm \<lparr>read_err = 0, read_tm = zero_tm\<lparr>tm_sec := 61, tm_year := 126\<rparr>,
                valid_tm = - 22\<rparr> \<noteq> 0
   \<and> take 7 (tl (sent (vfd_set_clock
         (Some \<lparr>read_err = 0, read_tm = zero_tm\<lparr>tm_sec := 61, tm_year := 126\<rparr>,
                valid_tm = - 22\<rparr>)
         (shuttle_vfd_probe False)) ! 1))
       = [0x61, 0, 0, 0, 0, 0x01, 0x26]"
  by code_simp

lemma get_icons_mask_only:
  "icons_mask a = icons_mask b \<Longrightarrow> get_vfd_icons_handler a = get_vfd_icons_handler b"
  by (simp add: get_vfd_icons_handler_def Let_def)

lemma mode_switch_clock:
  assumes "length (packet vfd) = 8"
  shows "icons_mask (vfd_set_clock rtc ((vfd_reset_cursor vfd True)\<lparr>mode := DRIVER_MODE_CLOCK\<rparr>))
           = icons_mask vfd"
    and "take (Suc (length (sent vfd)))
           (sent (vfd_set_clock rtc ((vfd_reset_cursor vfd True)\<lparr>mode := DRIVER_MODE_CLOCK\<rparr>)))
           = sent vfd @ [[0x11, 1, 0, 0, 0, 0, 0, 0]]"
proof -
  let ?v = "(vfd_reset_cursor vfd True)\<lparr>mode := DRIVER_MODE_CLOCK\<rparr>"
  have l: "length (packet ?v) = 8"
    using reset_cursor_sent(2) [OF assms] by simp
  show "icons_mask (vfd_set_clock rtc ?v) = icons_mask vfd"
    by (simp add: set_clock_frame vfd_reset_cursor_frame)
  show "take (Suc (length (sent vfd))) (sent (vfd_set_clock rtc ?v))
           = sent vfd @ [[0x11, 1, 0, 0, 0, 0, 0, 0]]"
    by (simp add: set_clock_sent [OF l] reset_cursor_sent(1) [OF assms])
qed

lemma mode_switch_text:
  assumes "length (packet vfd) = 8"
  shows "icons_mask (vfd_set_text ((vfd_reset_cursor vfd True)\<lparr>mode := DRIVER_MODE_TEXT\<rparr>) n)
           = icons_mask vfd"
    and "take (Suc (length (sent vfd)))
           (sent (vfd_set_text ((vfd_reset_cursor vfd True)\<lparr>mode := DRIVER_MODE_TEXT\<rparr>) n))
           = sent vfd @ [[0x11, 1, 0, 0, 0, 0, 0, 0]]"
proof -
  let ?v = "(vfd_reset_cursor vfd True)\<lparr>mode := DRIVER_MODE_TEXT\<rparr>"
  show "icons_mask (vfd_set_text ?v n) = icons_mask vfd"
    by (simp add: vfd_set_text_frame vfd_reset_cursor_frame)
  obtain ps where "sent (vfd_set_text ?v n) = sent ?v @ ps"
    using set_text_sent by blast
  then show "take (Suc (length (sent vfd))) (sent (vfd_set_text ?v n))
           = sent vfd @ [[0x11, 1, 0, 0, 0, 0, 0, 0]]"
    by (simp add: reset_cursor_sent(1) [OF assms])
qed

text \<open>
  C10: a mode write whose scanned word is \<open>clock\<close>, \<open>clk\<close>, \<open>text\<close> or \<open>txt\<close>
  succeeds; the first packet it sends is the reset packet with payload 1
  (erase text and icons); \<open>icons_mask\<close> is left as it was, so reading the icons
  afterwards gives the same line as before the switch.
\<close>

theorem C10_mode_switch_keeps_icons_mask:
  assumes "length (packet vfd) = 8"
    and "sscanf_5s buf = Some cmd"
    and "cmd \<in> {bytes_of ''clock'', bytes_of ''clk'', bytes_of ''text'', bytes_of ''txt''}"
  shows "\<exists>vfd'. set_vfd_mode_handler rtc vfd buf = Inr vfd'
           \<and> take (Suc (length (sent vfd))) (sent vfd') = sent vfd @ [[0x11, 1, 0, 0, 0, 0, 0, 0]]
           \<and> icons_mask vfd' = icons_mask vfd
           \<and> get_vfd_icons_handler vfd' = get_vfd_icons_handler vfd"
proof (cases "cmd = bytes_of ''clock'' \<or> cmd = bytes_of ''clk''")
  case True
  let ?w = "vfd_set_clock rtc ((vfd_reset_cursor vfd True)\<lparr>mode := DRIVER_MODE_CLOCK\<rparr>)"
  have "set_vfd_mode_handler rtc vfd buf = Inr ?w"
    using True assms(2) by (simp add: set_vfd_mode_handler_def)
  moreover have "icons_mask ?w = icons_mask vfd"
    by (rule mode_switch_clock(1) [OF assms(1)])
  moreover have "take (Suc (length (sent vfd))) (sent ?w) = sent vfd @ [[0x11, 1, 0, 0, 0, 0, 0, 0]]"
    by (rule mode_switch_clock(2) [OF assms(1)])
  ultimately show ?thesis
    using get_icons_mask_only [of ?w vfd] by blast
next
  case False
  let ?w = "vfd_set_text ((vfd_reset_cursor vfd True)\<lparr>mode := DRIVER_MODE_TEXT\<rparr>) SHUTTLE_VFD_WIDTH"
  from False assms(3) have "cmd = bytes_of ''text'' \<or> cmd = bytes_of ''txt''"
    by blast
  then have "set_vfd_mode_handler rtc vfd buf = Inr ?w"
    using False assms(2) by (simp add: set_vfd_mode_handler_def)
  moreover have "icons_mask ?w = icons_mask vfd"
    by (rule mode_switch_text(1) [OF assms(1)])
  moreover have "take (Suc (length (sent vfd))) (sent ?w) = sent vfd @ [[0x11, 1, 0, 0, 0, 0, 0, 0]]"
    by (rule mode_switch_text(2) [OF assms(1)])
  ultimately show ?thesis
    using get_icons_mask_only [of ?w vfd] by blast
qed

theorem C10_mode_switch_keeps_icons_mask_witness:
  "length (packet (set_vfd_icons_handler (shuttle_vfd_probe False) (bytes_of ''play,vol3''))) = 8
   \<and> sscanf_5s (bytes_of ''clock'' @ [0x0A]) = Some (bytes_of ''clock'')
   \<and> bytes_of ''clock''
       \<in> {bytes_of ''clock'', bytes_of ''clk'', bytes_of ''text'', bytes_of ''txt''}
   \<and> get_vfd_icons_handler (set_vfd_icons_handler (shuttle_vfd_probe False) (bytes_of ''play,vol3''))
       = ''play vol3'' @ [CHR 0x0A]
   \<and> (\<exists>vfd'. set_vfd_mode_handler None
           (set_vfd_icons_handler (shuttle_vfd_probe False) (bytes_of ''play,vol3''))
           (bytes_of ''clock'' @ [0x0A]) = Inr vfd'
         \<and> take 3 (sent vfd')
             = [[0x11, 1, 0, 0, 0, 0, 0, 0], [0x74, 3, 0, 2, 0, 0, 0, 0],
                [0x11, 1, 0, 0, 0, 0, 0, 0]]
         \<and> icons_mask vfd' = 0x18040
         \<and> get_vfd_icons_handler vfd' = ''play vol3'' @ [CHR 0x0A])"
proof -
  let ?v = "set_vfd_icons_handler (shuttle_vfd_probe False) (bytes_of ''play,vol3'')"
  have h1: "length (packet ?v) = 8"
    by code_simp
  have h2: "sscanf_5s (bytes_of ''clock'' @ [0x0A]) = Some (bytes_of ''clock'')"
    by code_simp
  have h3: "bytes_of ''clock''
       \<in> {bytes_of ''clock'', bytes_of ''clk'', bytes_of ''text'', bytes_of ''txt''}"
    by simp
  have e1: "get_vfd_icons_handler ?v = ''play vol3'' @ [CHR 0x0A]"
    by code_simp
  have e2: "icons_mask ?v = 0x18040"
    by code_simp
  have e3: "sent ?v = [[0x11, 1, 0, 0, 0, 0, 0, 0], [0x74, 3, 0, 2, 0, 0, 0, 0]]"
    by code_simp
  from C10_mode_switch_keeps_icons_mask [OF h1 h2 h3, of None]
  obtain vfd' where r: "set_vfd_mode_handler None ?v (bytes_of ''clock'' @ [0x0A]) = Inr vfd'"
    "take (Suc (length (sent ?v))) (sent vfd') = sent ?v @ [[0x11, 1, 0, 0, 0, 0, 0, 0]]"
    "icons_mask vfd' = icons_mask ?v"
    "get_vfd_icons_handler vfd' = get_vfd_icons_handler ?v"
    by blast
  from r(2) have "take 3 (sent vfd')
             = [[0x11, 1, 0, 0, 0, 0, 0, 0], [0x74, 3, 0, 2, 0, 0, 0, 0],
                [0x11, 1, 0, 0, 0, 0, 0, 0]]"
    unfolding e3 by (simp add: eval_nat_numeral)
  with r h1 h2 h3 e1 e2 show ?thesis
    by auto
qed

end
